theory Spec2Isabelle
  imports Main "HOL-Library.Log_Nat" "HOL-Library.Sublist" "HOL-Library.Code_Target_Nat"
begin

section \<open>Strings\<close>

text \<open>
  A JavaScript string is a sequence of UTF-16 code units. The literals of the program are
  written out as code units; \<open>ascii\<close> embeds the ones that are plain ASCII. None of the
  literals below needs a surrogate pair.
\<close>

type_synonym jsstring = "nat list"

definition ascii :: "string \<Rightarrow> jsstring" where
  "ascii s = map of_char s"

text \<open>\<open>s.includes(t)\<close>: \<open>t\<close> occurs in \<open>s\<close> as a contiguous run of code units.\<close>

fun includes_js :: "jsstring \<Rightarrow> jsstring \<Rightarrow> bool" where
  "includes_js [] t = (t = [])"
| "includes_js (c # s) t = (prefix t (c # s) \<or> includes_js s t)"

text \<open>\<open>xs.some(p)\<close>.\<close>

fun some :: "('a \<Rightarrow> bool) \<Rightarrow> 'a list \<Rightarrow> bool" where
  "some p [] = False"
| "some p (x # xs) = (p x \<or> some p xs)"

text \<open>\<open>xs.join(sep)\<close> on an array of strings.\<close>

fun join :: "jsstring \<Rightarrow> jsstring list \<Rightarrow> jsstring" where
  "join sep [] = []"
| "join sep [x] = x"
| "join sep (x # y # ys) = x @ sep @ join sep (y # ys)"

text \<open>\<open>xs.reduce(f, init)\<close>.\<close>

fun reduce :: "('b \<Rightarrow> 'a \<Rightarrow> 'b) \<Rightarrow> 'b \<Rightarrow> 'a list \<Rightarrow> 'b" where
  "reduce f acc [] = acc"
| "reduce f acc (x # xs) = reduce f (f acc x) xs"


section \<open>Numbers\<close>

text \<open>
  A JavaScript number is an IEEE 754 binary64 value. \<open>Fin q\<close> is the finite value \<open>q\<close>;
  every arithmetic operation computes the exact rational result and rounds it to the nearest
  binary64 value, ties to even (\<open>round64\<close>), overflowing to an infinity.

  The two zeros are identified. The program can tell them apart only by dividing by a zero;
  its one unguarded division divides by a sum that starts at \<open>+0\<close>, and such a sum is
  never \<open>-0\<close>, so \<open>js_div\<close> treats a zero divisor as \<open>+0\<close>.
\<close>

datatype jsnum = Fin rat | PInf | NInf | NaN

definition pow2 :: "int \<Rightarrow> rat" where
  "pow2 e = (if 0 \<le> e then 2 ^ nat e else 1 / 2 ^ nat (- e))"

definition pow10 :: "int \<Rightarrow> rat" where
  "pow10 e = (if 0 \<le> e then 10 ^ nat e else 1 / 10 ^ nat (- e))"

text \<open>For \<open>0 < a\<close>: the \<open>e\<close> with \<open>2^e \<le> a < 2^(e+1)\<close>.\<close>

definition floor_log2 :: "rat \<Rightarrow> int" where
  "floor_log2 a = (if 1 \<le> a then bitlen \<lfloor>a\<rfloor> - 1 else - bitlen (\<lceil>1 / a\<rceil> - 1))"

definition round_half_even :: "rat \<Rightarrow> int" where
  "round_half_even a = (let n = \<lfloor>a\<rfloor>; f = a - of_int n in
     if f < 1 / 2 then n else if 1 / 2 < f then n + 1 else if n mod 2 = 0 then n else n + 1)"

text \<open>
  Rounding to binary64: 53 significant bits, exponents from \<open>-1022\<close> (below it the
  spacing stays \<open>2^-1074\<close>, the subnormal range) to \<open>1023\<close>.
\<close>

definition round64 :: "rat \<Rightarrow> jsnum" where
  "round64 q = (if q = 0 then Fin 0 else
     let a = \<bar>q\<bar>;
         e = max (floor_log2 a) (- 1022);
         m = round_half_even (a / pow2 (e - 52))
     in if 1024 \<le> e \<or> (e = 1023 \<and> 9007199254740992 \<le> m)
        then (if 0 < q then PInf else NInf)
        else Fin ((if 0 < q then of_int m else - of_int m) * pow2 (e - 52)))"

text \<open>\<open>x + y\<close>\<close>

fun js_add :: "jsnum \<Rightarrow> jsnum \<Rightarrow> jsnum" where
  "js_add NaN _ = NaN"
| "js_add _ NaN = NaN"
| "js_add PInf NInf = NaN"
| "js_add NInf PInf = NaN"
| "js_add PInf _ = PInf"
| "js_add _ PInf = PInf"
| "js_add NInf _ = NInf"
| "js_add _ NInf = NInf"
| "js_add (Fin a) (Fin b) = round64 (a + b)"

text \<open>\<open>x * y\<close>\<close>

fun js_mul :: "jsnum \<Rightarrow> jsnum \<Rightarrow> jsnum" where
  "js_mul NaN _ = NaN"
| "js_mul _ NaN = NaN"
| "js_mul (Fin a) (Fin b) = round64 (a * b)"
| "js_mul (Fin a) PInf = (if a = 0 then NaN else if 0 < a then PInf else NInf)"
| "js_mul (Fin a) NInf = (if a = 0 then NaN else if 0 < a then NInf else PInf)"
| "js_mul PInf (Fin b) = (if b = 0 then NaN else if 0 < b then PInf else NInf)"
| "js_mul NInf (Fin b) = (if b = 0 then NaN else if 0 < b then NInf else PInf)"
| "js_mul PInf PInf = PInf"
| "js_mul NInf NInf = PInf"
| "js_mul PInf NInf = NInf"
| "js_mul NInf PInf = NInf"

text \<open>\<open>x / y\<close>\<close>

fun js_div :: "jsnum \<Rightarrow> jsnum \<Rightarrow> jsnum" where
  "js_div NaN _ = NaN"
| "js_div _ NaN = NaN"
| "js_div (Fin a) (Fin b) =
     (if b = 0 then (if a = 0 then NaN else if 0 < a then PInf else NInf)
      else round64 (a / b))"
| "js_div (Fin a) PInf = Fin 0"
| "js_div (Fin a) NInf = Fin 0"
| "js_div PInf (Fin b) = (if 0 \<le> b then PInf else NInf)"
| "js_div NInf (Fin b) = (if 0 \<le> b then NInf else PInf)"
| "js_div PInf PInf = NaN"
| "js_div PInf NInf = NaN"
| "js_div NInf PInf = NaN"
| "js_div NInf NInf = NaN"

text \<open>\<open>x > y\<close> and \<open>x <= y\<close>: both are false when an operand is \<open>NaN\<close>.\<close>

fun js_gt :: "jsnum \<Rightarrow> jsnum \<Rightarrow> bool" where
  "js_gt NaN _ = False"
| "js_gt _ NaN = False"
| "js_gt (Fin a) (Fin b) = (b < a)"
| "js_gt PInf PInf = False"
| "js_gt PInf _ = True"
| "js_gt NInf _ = False"
| "js_gt (Fin a) PInf = False"
| "js_gt (Fin a) NInf = True"

fun js_le :: "jsnum \<Rightarrow> jsnum \<Rightarrow> bool" where
  "js_le NaN _ = False"
| "js_le _ NaN = False"
| "js_le (Fin a) (Fin b) = (a \<le> b)"
| "js_le NInf _ = True"
| "js_le _ PInf = True"
| "js_le PInf _ = False"
| "js_le (Fin a) NInf = False"


section \<open>Number to text and back\<close>

text \<open>
  What the program needs of the host, and what cannot be written out here, is a parameter:
  \<^item> \<open>toUpperCase\<close> is \<open>String.prototype.toUpperCase\<close>, the Unicode upper-casing;
  \<^item> \<open>shortestDecimal\<close> is \<open>Number::toString\<close> on the finite values that are not
    integers below \<open>2^53\<close> in magnitude: the shortest decimal text that reads back as
    the same number.
  Every property below holds for all hosts.
\<close>

record host =
  toUpperCase :: "jsstring \<Rightarrow> jsstring"
  shortestDecimal :: "rat \<Rightarrow> jsstring"

text \<open>The decimal digits of a non-negative integer.\<close>

function decimal :: "int \<Rightarrow> jsstring" where
  "decimal n = (if n < 10 then [nat (48 + n)] else decimal (n div 10) @ [nat (48 + n mod 10)])"
  by pat_completeness auto
termination
  by (relation "measure nat") auto

declare decimal.simps [simp del]

text \<open>
  \<open>Number::toString(x)\<close>, as used by \<open>join\<close>, by template literals and by \<open>toFixed\<close>.
  An integer below \<open>2^53\<close> in magnitude prints as its digits.
\<close>

definition numberToString :: "host \<Rightarrow> jsnum \<Rightarrow> jsstring" where
  "numberToString h x = (case x of
       NaN \<Rightarrow> ascii ''NaN''
     | PInf \<Rightarrow> ascii ''Infinity''
     | NInf \<Rightarrow> ascii ''-Infinity''
     | Fin q \<Rightarrow>
         if of_int \<lfloor>q\<rfloor> = q \<and> \<bar>q\<bar> < 9007199254740992
         then (if q < 0 then ascii ''-'' else []) @ decimal \<lfloor>\<bar>q\<bar>\<rfloor>
         else shortestDecimal h q)"

text \<open>
  \<open>x.toFixed(f)\<close>: not finite or at least \<open>10^21\<close> in magnitude, the text of
  \<open>Number::toString\<close>; otherwise the integer \<open>n\<close> nearest to \<open>|x| * 10^f\<close> (the larger
  one of two), printed with \<open>f\<close> digits after the point, padded with zeros in front.
\<close>

definition toFixed :: "host \<Rightarrow> jsnum \<Rightarrow> nat \<Rightarrow> jsstring" where
  "toFixed h x f = (case x of
       Fin q \<Rightarrow>
         if 10 ^ 21 \<le> \<bar>q\<bar> then numberToString h x
         else
           let n = \<lfloor>\<bar>q\<bar> * 10 ^ f + 1 / 2\<rfloor>;
               m = decimal n;
               m = (if length m \<le> f then replicate (f + 1 - length m) 48 @ m else m);
               k = length m
           in (if q < 0 then ascii ''-'' else []) @
              (if f = 0 then m else take (k - f) m @ ascii ''.'' @ drop (k - f) m)
     | _ \<Rightarrow> numberToString h x)"

text \<open>
  \<open>parseFloat(s)\<close>: leading white space is skipped, the longest prefix that is a decimal
  literal is read (sign, \<open>Infinity\<close> or digits with an optional fraction and exponent), and
  its value is rounded to a number; \<open>NaN\<close> when there is no such prefix.
\<close>

definition isWhiteSpace :: "nat \<Rightarrow> bool" where
  "isWhiteSpace u = (u \<in> {9, 10, 11, 12, 13, 32, 160, 0x1680, 0x2028, 0x2029, 0x202F,
                            0x205F, 0x3000, 0xFEFF} \<or> (0x2000 \<le> u \<and> u \<le> 0x200A))"

definition isDigit :: "nat \<Rightarrow> bool" where
  "isDigit u = (48 \<le> u \<and> u \<le> 57)"

definition digitsValue :: "jsstring \<Rightarrow> int" where
  "digitsValue ds = foldl (\<lambda>acc d. acc * 10 + (int d - 48)) 0 ds"

definition splitSign :: "jsstring \<Rightarrow> bool \<times> jsstring" where
  "splitSign s = (case s of
       [] \<Rightarrow> (False, [])
     | c # r \<Rightarrow> if c = 45 then (True, r) else if c = 43 then (False, r) else (False, s))"

definition exponentPart :: "jsstring \<Rightarrow> int" where
  "exponentPart r = (case r of
       [] \<Rightarrow> 0
     | c # r1 \<Rightarrow>
         if c = 101 \<or> c = 69 then
           (let (neg, r2) = splitSign r1; ds = takeWhile isDigit r2
            in if ds = [] then 0 else if neg then - digitsValue ds else digitsValue ds)
         else 0)"

definition parseFloat :: "jsstring \<Rightarrow> jsnum" where
  "parseFloat s =
     (let (neg, t) = splitSign (dropWhile isWhiteSpace s) in
      if prefix (ascii ''Infinity'') t then (if neg then NInf else PInf)
      else
        let ip = takeWhile isDigit t;
            r1 = dropWhile isDigit t;
            fp = (case r1 of [] \<Rightarrow> [] | c # r \<Rightarrow> if c = 46 then takeWhile isDigit r else []);
            r2 = (case r1 of [] \<Rightarrow> [] | c # r \<Rightarrow> if c = 46 then dropWhile isDigit r else r1)
        in if ip = [] \<and> fp = [] then NaN
           else
             let mv = of_int (digitsValue (ip @ fp)) / 10 ^ length fp * pow10 (exponentPart r2)
             in round64 (if neg then - mv else mv))"


section \<open>The category rules and the classifier\<close>

text \<open>
  \<open>CATEGORY_RULES\<close> is an object literal whose four keys are not integer-like, so
  \<open>Object.entries\<close> lists them in the order they are written. The keys are the Chinese for
  marketing, operating cost, human resources and information technology; the default
  category is the Chinese for other, U+5176 U+4ED6.
\<close>

definition CAT_MARKETING :: jsstring where
  "CAT_MARKETING = [0x884C, 0x92B7, 0x63A8, 0x5EE3]"

definition CAT_OPERATIONS :: jsstring where
  "CAT_OPERATIONS = [0x71DF, 0x904B, 0x6210, 0x672C]"

definition CAT_PERSONNEL :: jsstring where
  "CAT_PERSONNEL = [0x4EBA, 0x529B, 0x8CC7, 0x6E90]"

definition CAT_IT :: jsstring where
  "CAT_IT = [0x8CC7, 0x8A0A, 0x6280, 0x8853]"

definition CAT_OTHER :: jsstring where
  "CAT_OTHER = [0x5176, 0x4ED6]"

definition CATEGORY_RULES :: "(jsstring \<times> jsstring list) list" where
  "CATEGORY_RULES =
    [(CAT_MARKETING,
        [[0x5EE3, 0x544A], ascii ''FB'', ascii ''Google'', [0x884C, 0x92B7], [0x63A8, 0x5EE3],
         ascii ''SEO'', [0x5C55, 0x89BD]]),
     (CAT_OPERATIONS,
        [[0x79DF, 0x91D1], [0x6C34, 0x96FB], [0x6587, 0x5177], [0x7DAD, 0x8B77],
         [0x6E05, 0x6F54], [0x8FA6, 0x516C, 0x5BA4], [0x4FDD, 0x96AA]]),
     (CAT_PERSONNEL,
        [[0x85AA, 0x8CC7], [0x734E, 0x91D1], [0x52DE, 0x5065, 0x4FDD], [0x5348, 0x9910],
         [0x57F9, 0x8A13], [0x798F, 0x5229], [0x5DEE, 0x65C5]]),
     (CAT_IT,
        [[0x4F3A, 0x670D, 0x5668], [0x96F2, 0x7AEF], ascii ''AWS'', [0x8EDF, 0x9AD4],
         [0x6388, 0x6B0A], ascii ''IT'', [0x96FB, 0x8166], [0x7DB2, 0x57DF]])]"

text \<open>The \<open>for\<close> loop of \<open>classifyItem\<close> over the remaining entries.\<close>

fun classify_loop :: "host \<Rightarrow> jsstring \<Rightarrow> (jsstring \<times> jsstring list) list \<Rightarrow> jsstring" where
  "classify_loop h name [] = CAT_OTHER"
| "classify_loop h name ((category, keywords) # rest) =
     (if some (\<lambda>kw. includes_js (toUpperCase h name) (toUpperCase h kw)) keywords
      then category
      else classify_loop h name rest)"

definition classifyItem :: "host \<Rightarrow> jsstring \<Rightarrow> jsstring" where
  "classifyItem h name = classify_loop h name CATEGORY_RULES"


section \<open>Items and the analysis\<close>

text \<open>
  An item is \<open>{ id, name, spend, budget }\<close>; an analyzed item is
  \<open>{ ...item, category, percentage }\<close>; a category summary is \<open>{ name, spend, budget }\<close>.
  The three share the property names \<open>name\<close>, \<open>spend\<close> and \<open>budget\<close>, which is the record
  \<open>entry\<close>; the item's \<open>id\<close> is the field \<open>id_item\<close>.
\<close>

record entry =
  name :: jsstring
  spend :: jsnum
  budget :: jsnum

record item = entry +
  id_item :: int

record analyzed = item +
  category :: jsstring
  percentage :: jsnum

text \<open>The body of the \<open>map\<close> in \<open>analyzedData\<close>.\<close>

definition analyzeItem :: "host \<Rightarrow> item \<Rightarrow> analyzed" where
  "analyzeItem h it =
     (let cat = classifyItem h (name it);
          pct = (if js_gt (budget it) (Fin 0)
                 then js_mul (js_div (spend it) (budget it)) (Fin 100)
                 else Fin 0)
      in \<lparr>name = name it, spend = spend it, budget = budget it, id_item = id_item it,
          category = cat, percentage = parseFloat (toFixed h pct 2)\<rparr>)"

definition analyzedData :: "host \<Rightarrow> item list \<Rightarrow> analyzed list" where
  "analyzedData h items = map (analyzeItem h) items"


section \<open>The category summary\<close>

text \<open>
  \<open>summary\<close> is an object used as a dictionary from category to \<open>{ name, spend, budget }\<close>.
  Its keys are categories returned by \<open>classifyItem\<close>: none is integer-like and none is a
  property of \<open>Object.prototype\<close>, so a missing key reads as \<open>undefined\<close>, a new key is
  added after the existing ones, and \<open>Object.values\<close> lists the values in that order. An
  association list in insertion order is that object.
\<close>

type_synonym summary_object = "(jsstring \<times> entry) list"

definition update_property :: "jsstring \<Rightarrow> (entry \<Rightarrow> entry) \<Rightarrow> summary_object \<Rightarrow> summary_object" where
  "update_property k f obj = map (\<lambda>(k', v). if k' = k then (k', f v) else (k', v)) obj"

text \<open>The body of the \<open>forEach\<close> in \<open>categorySummary\<close>.\<close>

definition summary_step :: "summary_object \<Rightarrow> analyzed \<Rightarrow> summary_object" where
  "summary_step summary it =
     (let summary1 =
            (if map_of summary (category it) = None
             then summary @ [(category it, \<lparr>name = category it, spend = Fin 0, budget = Fin 0\<rparr>)]
             else summary);
          summary2 = update_property (category it)
                       (\<lambda>e. e\<lparr>spend := js_add (spend e) (spend it)\<rparr>) summary1;
          summary3 = update_property (category it)
                       (\<lambda>e. e\<lparr>budget := js_add (budget e) (budget it)\<rparr>) summary2
      in summary3)"

fun forEach_summary :: "summary_object \<Rightarrow> analyzed list \<Rightarrow> summary_object" where
  "forEach_summary summary [] = summary"
| "forEach_summary summary (it # rest) = forEach_summary (summary_step summary it) rest"

definition categorySummary :: "analyzed list \<Rightarrow> entry list" where
  "categorySummary as = map snd (forEach_summary [] as)"


section \<open>Totals\<close>

definition totalSpend :: "analyzed list \<Rightarrow> jsnum" where
  "totalSpend as = reduce (\<lambda>sum i. js_add sum (spend i)) (Fin 0) as"

definition totalBudget :: "analyzed list \<Rightarrow> jsnum" where
  "totalBudget as = reduce (\<lambda>sum i. js_add sum (budget i)) (Fin 0) as"

definition overallPercentage :: "analyzed list \<Rightarrow> jsnum" where
  "overallPercentage as = js_mul (js_div (totalSpend as) (totalBudget as)) (Fin 100)"


section \<open>The CSV export\<close>

text \<open>
  The five column titles, in Chinese: item name, category, amount spent, budget, percentage
  used followed by \<open>(%)\<close>.
\<close>

definition headers :: "jsstring list" where
  "headers =
     [[0x9805, 0x76EE, 0x540D, 0x7A31],
      [0x985E, 0x5225],
      [0x652F, 0x51FA, 0x91D1, 0x984D],
      [0x9810, 0x7B97, 0x984D, 0x5EA6],
      [0x4F7F, 0x7528, 0x767E, 0x5206, 0x6BD4] @ ascii ''(%)'']"

text \<open>One element of \<open>csvRows\<close>; \<open>join\<close> turns the two numbers into text.\<close>

definition csvRow :: "host \<Rightarrow> analyzed \<Rightarrow> jsstring" where
  "csvRow h it =
     join (ascii '','')
       [name it, category it, numberToString h (spend it), numberToString h (budget it),
        numberToString h (percentage it) @ ascii ''%'']"

definition csvContent :: "host \<Rightarrow> analyzed list \<Rightarrow> jsstring" where
  "csvContent h as =
     [0xFEFF] @ join [10] (join (ascii '','') headers # map (csvRow h) as)"

text \<open>
  What \<open>handleDownloadCSV\<close> does is the download it triggers, if any: a blob of type
  \<open>text/csv\<close> with the content, under a file name made of a fixed prefix (the Chinese for
  financial analysis report, and an underscore), the date as the host's locale prints it
  (the parameter \<open>today\<close>) and \<open>.csv\<close>.
\<close>

record download =
  content :: jsstring
  filename :: jsstring

definition handleDownloadCSV :: "host \<Rightarrow> jsstring \<Rightarrow> item list \<Rightarrow> download option" where
  "handleDownloadCSV h today items =
     (let as = analyzedData h items in
      if length as = 0 then None
      else Some \<lparr>content = csvContent h as,
                 filename = [0x8CA1, 0x52D9, 0x5206, 0x6790, 0x5831, 0x544A, 0x5F] @ today @
                            ascii ''.csv''\<rparr>)"


section \<open>Adding and deleting items\<close>

text \<open>
  The component's state: the item list \<open>data\<close> and the three text fields of the form,
  \<open>newItem\<close>. \<open>now\<close> is the value of \<open>Date.now()\<close> when the form is submitted.
\<close>

record form =
  name_field :: jsstring
  spend_field :: jsstring
  budget_field :: jsstring

record app =
  data :: "item list"
  newItem :: form

definition handleAddItem :: "int \<Rightarrow> app \<Rightarrow> app" where
  "handleAddItem now st =
     (if name_field (newItem st) = [] \<or> spend_field (newItem st) = [] \<or>
         budget_field (newItem st) = []
      then st
      else
        let it = \<lparr>name = name_field (newItem st),
                  spend = parseFloat (spend_field (newItem st)),
                  budget = parseFloat (budget_field (newItem st)),
                  id_item = now\<rparr>
        in \<lparr>data = data st @ [it],
            newItem = \<lparr>name_field = [], spend_field = [], budget_field = []\<rparr>\<rparr>)"

definition deleteItem :: "int \<Rightarrow> app \<Rightarrow> app" where
  "deleteItem i st = st\<lparr>data := filter (\<lambda>it. id_item it \<noteq> i) (data st)\<rparr>"

text \<open>
  The form writes \<open>newItem\<close> through the \<open>onChange\<close> of its three fields, each storing
  the field's value. The name is a text field: its value is the text typed. Spend and budget
  are \<open><input type="number">\<close>: the value of such a field is the text typed when that is
  a valid floating-point number (an optional minus sign, digits, a point followed by digits,
  or both, and an optional exponent), and the empty text otherwise.
\<close>

definition validFloatingPoint :: "jsstring \<Rightarrow> bool" where
  "validFloatingPoint s =
     (let t = (case s of [] \<Rightarrow> [] | c # r \<Rightarrow> if c = 45 then r else s);
          ip = takeWhile isDigit t;
          r1 = dropWhile isDigit t;
          hasPoint = (case r1 of [] \<Rightarrow> False | c # r \<Rightarrow> c = 46);
          fp = (if hasPoint then takeWhile isDigit (tl r1) else []);
          r2 = (if hasPoint then dropWhile isDigit (tl r1) else r1);
          hasExponent = (case r2 of [] \<Rightarrow> False | c # r \<Rightarrow> c = 101 \<or> c = 69);
          ex = (case tl r2 of [] \<Rightarrow> [] | c # r \<Rightarrow> if c = 45 \<or> c = 43 then r else tl r2)
      in (if hasPoint then fp \<noteq> [] else ip \<noteq> []) \<and>
         (if hasExponent then ex \<noteq> [] \<and> list_all isDigit ex else r2 = []))"

definition numberInputValue :: "jsstring \<Rightarrow> jsstring" where
  "numberInputValue typed = (if validFloatingPoint typed then typed else [])"

definition changeName :: "jsstring \<Rightarrow> app \<Rightarrow> app" where
  "changeName typed st = st\<lparr>newItem := (newItem st)\<lparr>name_field := typed\<rparr>\<rparr>"

definition changeSpend :: "jsstring \<Rightarrow> app \<Rightarrow> app" where
  "changeSpend typed st = st\<lparr>newItem := (newItem st)\<lparr>spend_field := numberInputValue typed\<rparr>\<rparr>"

definition changeBudget :: "jsstring \<Rightarrow> app \<Rightarrow> app" where
  "changeBudget typed st = st\<lparr>newItem := (newItem st)\<lparr>budget_field := numberInputValue typed\<rparr>\<rparr>"

text \<open>Typing a name, a spend and a budget into the form.\<close>

definition fillForm :: "jsstring \<Rightarrow> jsstring \<Rightarrow> jsstring \<Rightarrow> app \<Rightarrow> app" where
  "fillForm nm sp bu st = changeBudget bu (changeSpend sp (changeName nm st))"

text \<open>The state the component starts in: seven sample items.\<close>

definition initial_data :: "item list" where
  "initial_data =
     [\<lparr>name = [0x8FA6, 0x516C, 0x5BA4, 0x79DF, 0x91D1],
       spend = Fin 50000, budget = Fin 50000, id_item = 1\<rparr>,
      \<lparr>name = ascii ''AWS '' @ [0x96F2, 0x7AEF, 0x4F3A, 0x670D, 0x5668],
       spend = Fin 12500, budget = Fin 15000, id_item = 2\<rparr>,
      \<lparr>name = ascii ''Facebook '' @ [0x5EE3, 0x544A, 0x6295, 0x653E],
       spend = Fin 32000, budget = Fin 30000, id_item = 3\<rparr>,
      \<lparr>name = [0x54E1, 0x5DE5, 0x5348, 0x9910, 0x88DC, 0x52A9],
       spend = Fin 6800, budget = Fin 8000, id_item = 4\<rparr>,
      \<lparr>name = [0x8FA6, 0x516C, 0x5BA4, 0x6587, 0x5177],
       spend = Fin 1500, budget = Fin 1000, id_item = 5\<rparr>,
      \<lparr>name = [0x5C08, 0x696D, 0x8CAC, 0x4EFB, 0x4FDD, 0x96AA],
       spend = Fin 15000, budget = Fin 15000, id_item = 6\<rparr>,
      \<lparr>name = ascii ''Google '' @ [0x95DC, 0x9375, 0x5B57],
       spend = Fin 18000, budget = Fin 25000, id_item = 7\<rparr>]"

definition initial_app :: app where
  "initial_app = \<lparr>data = initial_data,
                   newItem = \<lparr>name_field = [], spend_field = [], budget_field = []\<rparr>\<rparr>"

text \<open>
  Two items added to the sample items while the clock shows the same millisecond.
\<close>

definition added_twice :: app where
  "added_twice =
     handleAddItem 1700000000000
       (fillForm (ascii ''b'') (ascii ''3'') (ascii ''4'')
          (handleAddItem 1700000000000
             (fillForm (ascii ''a'') (ascii ''1'') (ascii ''2'') initial_app)))"


section \<open>A host to compute with\<close>

text \<open>
  \<open>sample_host\<close> upper-cases the letters \<open>a\<close> to \<open>z\<close> and leaves every other code unit
  as it is, which is what the host does on text in ASCII and Chinese; it prints a number
  with at most two decimals, which is the host's text for the percentages of the sample
  items. It serves to evaluate the definitions on concrete items.
\<close>

definition upper_unit :: "nat \<Rightarrow> nat" where
  "upper_unit u = (if 97 \<le> u \<and> u \<le> 122 then u - 32 else u)"

definition two_decimals :: "rat \<Rightarrow> jsstring" where
  "two_decimals q =
     (let n = \<lfloor>\<bar>q\<bar> * 100 + 1 / 2\<rfloor>
      in (if q < 0 then ascii ''-'' else []) @ decimal (n div 100) @
         (if n mod 100 = 0 then []
          else ascii ''.'' @ decimal (n mod 100 div 10) @
               (if n mod 10 = 0 then [] else decimal (n mod 10))))"

definition sample_host :: host where
  "sample_host = \<lparr>toUpperCase = map upper_unit, shortestDecimal = two_decimals\<rparr>"


section \<open>The properties, in the words of the specification\<close>

text \<open>
  A keyword occurs in a name as a case-insensitive substring: after upper-casing both, the
  keyword is a contiguous part of the name. A rule matches a name when one of its keywords
  does.
\<close>

definition occurs_ignoring_case :: "host \<Rightarrow> jsstring \<Rightarrow> jsstring \<Rightarrow> bool" where
  "occurs_ignoring_case h kw nm =
     (\<exists>before after. toUpperCase h nm = before @ toUpperCase h kw @ after)"

definition rule_matches :: "host \<Rightarrow> jsstring \<Rightarrow> jsstring \<times> jsstring list \<Rightarrow> bool" where
  "rule_matches h nm rule = (\<exists>kw \<in> set (snd rule). occurs_ignoring_case h kw nm)"

text \<open>The distinct elements of a list, each once, in the order of their first occurrence.\<close>

fun first_seen :: "'a list \<Rightarrow> 'a list" where
  "first_seen [] = []"
| "first_seen (x # xs) = x # first_seen (filter (\<lambda>y. y \<noteq> x) xs)"


text \<open>
  The sum of a list of numbers: zero, then each number added in turn. The order matters,
  since an addition rounds.
\<close>

definition sum_from_left :: "jsnum list \<Rightarrow> jsnum" where
  "sum_from_left xs = foldl js_add (Fin 0) xs"

text \<open>The items of a category, in the order of the list.\<close>

definition in_category :: "jsstring \<Rightarrow> analyzed list \<Rightarrow> analyzed list" where
  "in_category c as = filter (\<lambda>a. category a = c) as"

text \<open>
  Rounding to two decimals: the nearest multiple of a hundredth, the one larger in
  magnitude of two, as a number.
\<close>

definition round_to_hundredths :: "jsnum \<Rightarrow> jsnum" where
  "round_to_hundredths x = (case x of
       Fin q \<Rightarrow> round64 ((if q < 0 then - 1 else 1) * of_int \<lfloor>\<bar>q\<bar> * 100 + 1 / 2\<rfloor> / 100)
     | _ \<Rightarrow> x)"

text \<open>
  The numbers \<open>toFixed\<close> prints in fixed notation: all but the finite ones of magnitude
  \<open>10^21\<close> and more.
\<close>

definition fixed_notation :: "jsnum \<Rightarrow> bool" where
  "fixed_notation x = (case x of Fin q \<Rightarrow> \<bar>q\<bar> < 10 ^ 21 | _ \<Rightarrow> True)"

text \<open>
  Amounts that add up without rounding: whole numbers whose magnitudes sum to at most
  \<open>2^53\<close>.
\<close>

definition whole :: "jsnum \<Rightarrow> bool" where
  "whole x = (case x of Fin q \<Rightarrow> of_int \<lfloor>q\<rfloor> = q | _ \<Rightarrow> False)"

definition magnitude :: "jsnum \<Rightarrow> rat" where
  "magnitude x = (case x of Fin q \<Rightarrow> \<bar>q\<bar> | _ \<Rightarrow> 0)"

definition amount :: "jsnum \<Rightarrow> rat" where
  "amount x = (case x of Fin q \<Rightarrow> q | _ \<Rightarrow> 0)"

definition exact_amounts :: "jsnum list \<Rightarrow> bool" where
  "exact_amounts xs = (list_all whole xs \<and> sum_list (map magnitude xs) \<le> 9007199254740992)"

text \<open>
  Four items whose amounts do not add up without rounding: two advertisements and two
  rents, one of them of \<open>2^53\<close>.
\<close>

definition rounding_items :: "item list" where
  "rounding_items =
     [\<lparr>name = [0x5EE3, 0x544A], spend = Fin 1, budget = Fin 1, id_item = 1\<rparr>,
      \<lparr>name = [0x79DF, 0x91D1], spend = Fin 9007199254740992, budget = Fin 1, id_item = 2\<rparr>,
      \<lparr>name = [0x5EE3, 0x544A], spend = Fin 1, budget = Fin 1, id_item = 3\<rparr>,
      \<lparr>name = [0x79DF, 0x91D1], spend = Fin 1, budget = Fin 1, id_item = 4\<rparr>]"

text \<open>
  Two steps of the summary, for the proofs: a category's entry as it is created, and an
  entry after the items of a list have been added to it.
\<close>

definition fresh_entry :: "jsstring \<Rightarrow> jsstring \<times> entry" where
  "fresh_entry c = (c, \<lparr>name = c, spend = Fin 0, budget = Fin 0\<rparr>)"

definition absorb :: "analyzed list \<Rightarrow> jsstring \<times> entry \<Rightarrow> jsstring \<times> entry" where
  "absorb as kv =
     (fst kv, (snd kv)\<lparr>spend := foldl js_add (spend (snd kv)) (map spend (in_category (fst kv) as)),
                       budget := foldl js_add (budget (snd kv)) (map budget (in_category (fst kv) as))\<rparr>)"


section \<open>The classifier\<close>

lemma includes_js_iff: "includes_js s t \<longleftrightarrow> (\<exists>before after. s = before @ t @ after)"
proof (induction s)
  case Nil
  then show ?case by auto
next
  case (Cons c s)
  have "(\<exists>before after. c # s = before @ t @ after) \<longleftrightarrow>
        prefix t (c # s) \<or> (\<exists>before after. s = before @ t @ after)"
    using sublist_Cons_right[of t c s] by (simp add: sublist_def)
  with Cons show ?case by simp
qed

lemma some_iff: "some p xs \<longleftrightarrow> (\<exists>x \<in> set xs. p x)"
  by (induction xs) auto

lemma rule_matches_code:
  "rule_matches h nm rule \<longleftrightarrow>
   some (\<lambda>kw. includes_js (toUpperCase h nm) (toUpperCase h kw)) (snd rule)"
  by (simp add: rule_matches_def occurs_ignoring_case_def some_iff includes_js_iff)

lemma classify_loop_first:
  "i < length rules \<Longrightarrow> rule_matches h nm (rules ! i) \<Longrightarrow>
   (\<forall>j<i. \<not> rule_matches h nm (rules ! j)) \<Longrightarrow>
   classify_loop h nm rules = fst (rules ! i)"
proof (induction rules arbitrary: i)
  case Nil
  then show ?case by simp
next
  case (Cons r rules)
  obtain c kws where r: "r = (c, kws)" by (cases r)
  show ?case
  proof (cases i)
    case 0
    with Cons.prems r show ?thesis by (simp add: rule_matches_code)
  next
    case (Suc k)
    from Cons.prems Suc have "\<not> rule_matches h nm r" by auto
    moreover from Cons.prems Suc have "classify_loop h nm rules = fst (rules ! k)"
      by (intro Cons.IH) auto
    ultimately show ?thesis using r Suc by (simp add: rule_matches_code)
  qed
qed

lemma classify_loop_none:
  "(\<forall>i<length rules. \<not> rule_matches h nm (rules ! i)) \<Longrightarrow>
   classify_loop h nm rules = CAT_OTHER"
proof (induction rules)
  case Nil
  then show ?case by simp
next
  case (Cons r rules)
  obtain c kws where r: "r = (c, kws)" by (cases r)
  from Cons.prems have "\<not> rule_matches h nm r" by auto
  moreover from Cons.prems have "classify_loop h nm rules = CAT_OTHER"
    by (intro Cons.IH) auto
  ultimately show ?case using r by (simp add: rule_matches_code)
qed

lemma classify_loop_range:
  "classify_loop h nm rules \<in> set (map fst rules) \<union> {CAT_OTHER}"
  by (induction h nm rules rule: classify_loop.induct) auto

lemma empty_name_no_match:
  assumes "toUpperCase h [] = []" and "\<forall>kw \<in> set (snd rule). toUpperCase h kw \<noteq> []"
  shows "\<not> rule_matches h [] rule"
  using assms by (auto simp: rule_matches_def occurs_ignoring_case_def)

text \<open>
  Claim C1. The rule table lists marketing, operating cost, human resources and information
  technology in this order. For every host and every name, \<open>classifyItem\<close> returns the
  category of the first rule, in that order, one of whose keywords occurs in the name as a
  case-insensitive substring, and the default category (the Chinese word for other,
  U+5176 U+4ED6) when no rule matches. It always returns: a category of the table or the
  default, a function of the name alone. The empty name, whose upper-casing is empty,
  matches no keyword and yields the default.
\<close>

theorem classifyItem_first_match:
  "map fst CATEGORY_RULES = [CAT_MARKETING, CAT_OPERATIONS, CAT_PERSONNEL, CAT_IT] \<and>
   classifyItem h nm \<in> set (map fst CATEGORY_RULES) \<union> {CAT_OTHER} \<and>
   (\<forall>i < length CATEGORY_RULES.
      rule_matches h nm (CATEGORY_RULES ! i) \<and>
      (\<forall>j<i. \<not> rule_matches h nm (CATEGORY_RULES ! j)) \<longrightarrow>
      classifyItem h nm = fst (CATEGORY_RULES ! i)) \<and>
   ((\<forall>i < length CATEGORY_RULES. \<not> rule_matches h nm (CATEGORY_RULES ! i)) \<longrightarrow>
      classifyItem h nm = CAT_OTHER) \<and>
   (toUpperCase h [] = [] \<and>
    (\<forall>rule \<in> set CATEGORY_RULES. \<forall>kw \<in> set (snd rule). toUpperCase h kw \<noteq> []) \<longrightarrow>
      classifyItem h [] = CAT_OTHER)"
proof (intro conjI allI impI)
  show "map fst CATEGORY_RULES = [CAT_MARKETING, CAT_OPERATIONS, CAT_PERSONNEL, CAT_IT]"
    by (simp add: CATEGORY_RULES_def)
next
  show "classifyItem h nm \<in> set (map fst CATEGORY_RULES) \<union> {CAT_OTHER}"
    unfolding classifyItem_def by (rule classify_loop_range)
next
  fix i
  assume "i < length CATEGORY_RULES"
    and "rule_matches h nm (CATEGORY_RULES ! i) \<and>
         (\<forall>j<i. \<not> rule_matches h nm (CATEGORY_RULES ! j))"
  then show "classifyItem h nm = fst (CATEGORY_RULES ! i)"
    unfolding classifyItem_def by (intro classify_loop_first) auto
next
  assume "\<forall>i < length CATEGORY_RULES. \<not> rule_matches h nm (CATEGORY_RULES ! i)"
  then show "classifyItem h nm = CAT_OTHER"
    unfolding classifyItem_def by (rule classify_loop_none)
next
  assume a: "toUpperCase h [] = [] \<and>
    (\<forall>rule \<in> set CATEGORY_RULES. \<forall>kw \<in> set (snd rule). toUpperCase h kw \<noteq> [])"
  then have "\<forall>i < length CATEGORY_RULES. \<not> rule_matches h [] (CATEGORY_RULES ! i)"
    using empty_name_no_match[of h] by (metis nth_mem)
  then show "classifyItem h [] = CAT_OTHER"
    unfolding classifyItem_def by (rule classify_loop_none)
qed

text \<open>The definitions a concrete classification unfolds.\<close>

lemmas ev = classifyItem_def CATEGORY_RULES_def sample_host_def upper_unit_def ascii_def
  CAT_MARKETING_def CAT_OPERATIONS_def CAT_PERSONNEL_def CAT_IT_def CAT_OTHER_def

theorem classifyItem_first_match_witness:
  "rule_matches sample_host (ascii ''IT Google'') (CATEGORY_RULES ! 0) \<and>
   rule_matches sample_host (ascii ''IT Google'') (CATEGORY_RULES ! 3) \<and>
   classifyItem sample_host (ascii ''IT Google'') = CAT_MARKETING \<and>
   \<not> rule_matches sample_host (ascii ''xyz'') (CATEGORY_RULES ! 0) \<and>
   \<not> rule_matches sample_host (ascii ''xyz'') (CATEGORY_RULES ! 1) \<and>
   \<not> rule_matches sample_host (ascii ''xyz'') (CATEGORY_RULES ! 2) \<and>
   \<not> rule_matches sample_host (ascii ''xyz'') (CATEGORY_RULES ! 3) \<and>
   classifyItem sample_host (ascii ''xyz'') = CAT_OTHER \<and>
   toUpperCase sample_host [] = [] \<and>
   classifyItem sample_host [] = CAT_OTHER"
proof -
  have len: "0 < length CATEGORY_RULES"
    by (simp add: CATEGORY_RULES_def)
  have fst0: "fst (CATEGORY_RULES ! 0) = CAT_MARKETING"
    by (simp add: CATEGORY_RULES_def)
  have m0: "rule_matches sample_host (ascii ''IT Google'') (CATEGORY_RULES ! 0)"
    by (simp add: rule_matches_code ev)
  have m3: "rule_matches sample_host (ascii ''IT Google'') (CATEGORY_RULES ! 3)"
    by (simp add: rule_matches_code ev)
  have c0: "classifyItem sample_host (ascii ''IT Google'') = CAT_MARKETING"
    using classifyItem_first_match[of sample_host "ascii ''IT Google''"] m0 len fst0
    by (metis not_less_zero)
  have no_rule: "\<forall>rule \<in> set CATEGORY_RULES. \<not> rule_matches sample_host (ascii ''xyz'') rule"
    by (simp add: rule_matches_code ev)
  then have none: "\<forall>i < length CATEGORY_RULES.
      \<not> rule_matches sample_host (ascii ''xyz'') (CATEGORY_RULES ! i)"
    by simp
  have n0: "\<not> rule_matches sample_host (ascii ''xyz'') (CATEGORY_RULES ! 0)"
    and n1: "\<not> rule_matches sample_host (ascii ''xyz'') (CATEGORY_RULES ! 1)"
    and n2: "\<not> rule_matches sample_host (ascii ''xyz'') (CATEGORY_RULES ! 2)"
    and n3: "\<not> rule_matches sample_host (ascii ''xyz'') (CATEGORY_RULES ! 3)"
    by (simp_all add: rule_matches_code ev)
  have c1: "classifyItem sample_host (ascii ''xyz'') = CAT_OTHER"
    using classifyItem_first_match[of sample_host "ascii ''xyz''"] none by blast
  have up: "toUpperCase sample_host [] = []"
    by (simp add: sample_host_def)
  have kws: "\<forall>rule \<in> set CATEGORY_RULES. \<forall>kw \<in> set (snd rule). toUpperCase sample_host kw \<noteq> []"
    by (simp add: CATEGORY_RULES_def sample_host_def ascii_def)
  have c2: "classifyItem sample_host [] = CAT_OTHER"
    using classifyItem_first_match[of sample_host "[]"] up kws by blast
  from m0 m3 c0 n0 n1 n2 n3 c1 up c2 show ?thesis by blast
qed


section \<open>The export of an empty list\<close>

text \<open>
  Claim C9. The analyzed list is empty exactly when the item list is, and then
  \<open>handleDownloadCSV\<close> returns at once: no content is built and no download is triggered.
  With at least one item it does trigger a download.
\<close>

theorem handleDownloadCSV_empty:
  "analyzedData h [] = [] \<and> handleDownloadCSV h today [] = None \<and>
   handleDownloadCSV h today (it # items) \<noteq> None"
  by (simp add: handleDownloadCSV_def analyzedData_def)

section \<open>Totals\<close>

lemma reduce_foldl: "reduce f acc xs = foldl f acc xs"
  by (induction xs arbitrary: acc) auto

text \<open>
  Claim C6. The two totals are the sums, from left to right and starting at zero, of the
  items' spend and budget. The overall percentage divides the one by the other and
  multiplies by a hundred, whatever the divisor: when the total budget is zero the result
  is no finite number but \<open>NaN\<close> (for a total spend of zero or \<open>NaN\<close>) or an infinity.
\<close>

theorem totals_plain_sums:
  "totalSpend as = foldl js_add (Fin 0) (map spend as) \<and>
   totalBudget as = foldl js_add (Fin 0) (map budget as) \<and>
   overallPercentage as = js_mul (js_div (totalSpend as) (totalBudget as)) (Fin 100) \<and>
   (totalBudget as = Fin 0 \<longrightarrow>
      overallPercentage as \<in> {NaN, PInf, NInf} \<and>
      (overallPercentage as = NaN \<longleftrightarrow> totalSpend as \<in> {Fin 0, NaN}))"
proof (intro conjI impI)
  show "totalSpend as = foldl js_add (Fin 0) (map spend as)"
    by (simp add: totalSpend_def reduce_foldl foldl_map)
  show "totalBudget as = foldl js_add (Fin 0) (map budget as)"
    by (simp add: totalBudget_def reduce_foldl foldl_map)
  show "overallPercentage as = js_mul (js_div (totalSpend as) (totalBudget as)) (Fin 100)"
    by (simp add: overallPercentage_def)
next
  assume z: "totalBudget as = Fin 0"
  show "overallPercentage as \<in> {NaN, PInf, NInf}"
    unfolding overallPercentage_def z by (cases "totalSpend as") auto
  show "overallPercentage as = NaN \<longleftrightarrow> totalSpend as \<in> {Fin 0, NaN}"
    unfolding overallPercentage_def z by (cases "totalSpend as") auto
qed


theorem totals_plain_sums_witness:
  "totalBudget [] = Fin 0 \<and> overallPercentage [] = NaN \<and>
   totalBudget [\<lparr>name = ascii ''x'', spend = Fin 5, budget = Fin 0, id_item = 1,
                  category = CAT_OTHER, percentage = Fin 0\<rparr>] = Fin 0 \<and>
   overallPercentage [\<lparr>name = ascii ''x'', spend = Fin 5, budget = Fin 0, id_item = 1,
                  category = CAT_OTHER, percentage = Fin 0\<rparr>] = PInf"
proof -
  let ?a = "\<lparr>name = ascii ''x'', spend = Fin 5, budget = Fin 0, id_item = 1,
             category = CAT_OTHER, percentage = Fin 0\<rparr>"
  have z0: "totalBudget [] = Fin 0" by (simp add: totalBudget_def)
  have s0: "totalSpend [] = Fin 0" by (simp add: totalSpend_def)
  have z1: "totalBudget [?a] = Fin 0" by (simp add: totalBudget_def round64_def)
  have s1: "totalSpend [?a] = Fin 5" by code_simp
  from totals_plain_sums[of "[]"]
  have "totalBudget [] = Fin 0 \<longrightarrow> (overallPercentage [] = NaN \<longleftrightarrow> totalSpend [] \<in> {Fin 0, NaN})"
    by blast
  with z0 s0 have n: "overallPercentage [] = NaN" by simp
  from totals_plain_sums[of "[?a]"]
  have "totalBudget [?a] = Fin 0 \<longrightarrow>
      overallPercentage [?a] \<in> {NaN, PInf, NInf} \<and>
      (overallPercentage [?a] = NaN \<longleftrightarrow> totalSpend [?a] \<in> {Fin 0, NaN})"
    by blast
  with z1 s1 have "overallPercentage [?a] \<in> {NaN, PInf, NInf}"
    and "overallPercentage [?a] \<noteq> NaN" by auto
  moreover have "overallPercentage [?a] \<noteq> NInf" by (simp add: overallPercentage_def z1 s1)
  ultimately have "overallPercentage [?a] = PInf" by blast
  with z0 z1 n show ?thesis by simp
qed

text \<open>
  Claim C3 says that the operation changes nothing when the spend or the budget does not
  parse as a number, and that the new item gets a fresh id. The guard of \<open>handleAddItem\<close>
  tests the three texts for emptiness only: with the spend text \<open>abc\<close> an item is added,
  its spend \<open>NaN\<close>. The id is the clock's value: two items added in the same millisecond
  get the same id.
\<close>


section \<open>Adding an item\<close>

lemma round64_not_NaN: "round64 q \<noteq> NaN"
  by (simp add: round64_def Let_def)

lemma parseFloat_signed:
  assumes t: "t = c # r" "isDigit c \<or> c = 46"
    and m: "takeWhile isDigit t \<noteq> [] \<or>
            (case dropWhile isDigit t of [] \<Rightarrow> [] | d # u \<Rightarrow> if d = 46 then takeWhile isDigit u else [])
              \<noteq> []"
  shows "parseFloat ((if neg then [45] else []) @ t) \<noteq> NaN"
proof -
  let ?s = "(if neg then [45] else []) @ t"
  from t(2) have c: "\<not> isWhiteSpace c" "c \<noteq> 45" "c \<noteq> 43"
    by (auto simp: isDigit_def isWhiteSpace_def)
  have minus: "\<not> isWhiteSpace 45"
    by (simp add: isWhiteSpace_def)
  have ws: "dropWhile isWhiteSpace ?s = ?s"
    by (simp add: t(1) c(1) minus)
  have sign: "splitSign ?s = (neg, t)"
    by (simp add: t(1) c splitSign_def)
  show ?thesis
    unfolding parseFloat_def ws sign using m
    by (auto simp: Let_def round64_not_NaN)
qed

lemma validFloatingPoint_parts:
  assumes "validFloatingPoint s"
  obtains neg t c r where "s = (if neg then [45] else []) @ t" and "t = c # r"
    and "isDigit c \<or> c = 46"
    and "takeWhile isDigit t \<noteq> [] \<or>
         (case dropWhile isDigit t of [] \<Rightarrow> [] | d # u \<Rightarrow> if d = 46 then takeWhile isDigit u else [])
           \<noteq> []"
proof -
  define t where "t = (case s of [] \<Rightarrow> [] | c # r \<Rightarrow> if c = 45 then r else s)"
  define neg where "neg = (case s of [] \<Rightarrow> False | c # r \<Rightarrow> c = 45)"
  have s: "s = (if neg then [45] else []) @ t"
    by (cases s) (simp_all add: t_def neg_def)
  let ?r1 = "dropWhile isDigit t"
  let ?hasPoint = "case ?r1 of [] \<Rightarrow> False | c # r \<Rightarrow> c = 46"
  from assms have v: "if ?hasPoint then takeWhile isDigit (tl ?r1) \<noteq> [] else takeWhile isDigit t \<noteq> []"
    unfolding validFloatingPoint_def Let_def t_def by (auto split: if_splits)
  have m: "takeWhile isDigit t \<noteq> [] \<or>
         (case ?r1 of [] \<Rightarrow> [] | d # u \<Rightarrow> if d = 46 then takeWhile isDigit u else []) \<noteq> []"
    using v by (cases ?r1) (auto split: if_splits)
  have "t \<noteq> []" using m by auto
  then obtain c r where t: "t = c # r" by (cases t) auto
  have dc: "isDigit c \<or> c = 46"
  proof (cases "isDigit c")
    case True
    then show ?thesis by simp
  next
    case False
    with t have "takeWhile isDigit t = []" "?r1 = c # r" by simp_all
    with m show ?thesis by (auto split: if_splits)
  qed
  from s t dc m show ?thesis by (rule that)
qed

lemma parseFloat_valid:
  assumes "validFloatingPoint s"
  shows "parseFloat s \<noteq> NaN"
proof -
  from assms obtain neg t c r where "s = (if neg then [45] else []) @ t" and "t = c # r"
    and "isDigit c \<or> c = 46"
    and "takeWhile isDigit t \<noteq> [] \<or>
         (case dropWhile isDigit t of [] \<Rightarrow> [] | d # u \<Rightarrow> if d = 46 then takeWhile isDigit u else [])
           \<noteq> []"
    by (rule validFloatingPoint_parts)
  then show ?thesis using parseFloat_signed by blast
qed

lemma numberInputValue_empty_iff: "numberInputValue typed = [] \<longleftrightarrow> \<not> validFloatingPoint typed"
  by (auto simp: numberInputValue_def validFloatingPoint_def)

lemma fillForm_fields [simp]:
  "name_field (newItem (fillForm nm sp bu st)) = nm"
  "spend_field (newItem (fillForm nm sp bu st)) = numberInputValue sp"
  "budget_field (newItem (fillForm nm sp bu st)) = numberInputValue bu"
  "data (fillForm nm sp bu st) = data st"
  by (simp_all add: fillForm_def changeName_def changeSpend_def changeBudget_def)

lemma handleAddItem_skips:
  "name_field (newItem st) = [] \<or> spend_field (newItem st) = [] \<or>
   budget_field (newItem st) = [] \<Longrightarrow> handleAddItem now st = st"
  by (auto simp: handleAddItem_def)

lemma handleAddItem_appends:
  assumes "name_field (newItem st) \<noteq> []" "spend_field (newItem st) \<noteq> []"
    "budget_field (newItem st) \<noteq> []"
  shows "handleAddItem now st =
    \<lparr>data = data st @ [\<lparr>name = name_field (newItem st),
                          spend = parseFloat (spend_field (newItem st)),
                          budget = parseFloat (budget_field (newItem st)),
                          id_item = now\<rparr>],
     newItem = \<lparr>name_field = [], spend_field = [], budget_field = []\<rparr>\<rparr>"
  using assms by (simp add: handleAddItem_def Let_def)

text \<open>
  Claim C3 says that the new item gets a fresh, unique id. The id is the clock's value
  and nothing compares it with the ids in the list: two items typed into the form and
  added while the clock shows the same millisecond carry the same id.
\<close>

theorem handleAddItem_same_clock:
  "validFloatingPoint (ascii ''1'') \<and> validFloatingPoint (ascii ''2'') \<and>
   validFloatingPoint (ascii ''3'') \<and> validFloatingPoint (ascii ''4'') \<and>
   map id_item (data added_twice) = [1, 2, 3, 4, 5, 6, 7, 1700000000000, 1700000000000] \<and>
   map name (data added_twice) = map name initial_data @ [ascii ''a'', ascii ''b''] \<and>
   \<not> distinct (map id_item (data added_twice))"
proof -
  have v: "validFloatingPoint (ascii ''1'')" "validFloatingPoint (ascii ''2'')"
    "validFloatingPoint (ascii ''3'')" "validFloatingPoint (ascii ''4'')"
    by code_simp+
  then have val: "numberInputValue (ascii ''1'') \<noteq> []" "numberInputValue (ascii ''2'') \<noteq> []"
    "numberInputValue (ascii ''3'') \<noteq> []" "numberInputValue (ascii ''4'') \<noteq> []"
    by (simp_all add: numberInputValue_empty_iff)
  have nm: "ascii ''a'' \<noteq> []" "ascii ''b'' \<noteq> []"
    by (simp_all add: ascii_def)
  have ids: "map id_item (data added_twice) =
             [1, 2, 3, 4, 5, 6, 7, 1700000000000, 1700000000000]"
    unfolding added_twice_def
    by (simp add: handleAddItem_appends val nm initial_app_def initial_data_def)
  have names: "map name (data added_twice) = map name initial_data @ [ascii ''a'', ascii ''b'']"
    unfolding added_twice_def
    by (simp add: handleAddItem_appends val nm initial_app_def)
  from v ids names show ?thesis by simp
qed

text \<open>
  Claim C3, amended. Whatever is typed into the form, adding changes nothing (the list is
  as before and no item is created) when the name is missing or the spend or the budget is
  missing or no number: the number field then holds the empty text. Otherwise exactly one
  item is appended to the end of the list, with the name as typed, the spend and the
  budget as \<open>parseFloat\<close> reads them (never \<open>NaN\<close>) and the clock's value as id, and
  the form is cleared; the ids of the list stay distinct whenever the clock's value is not
  yet the id of an item.
\<close>

theorem handleAddItem_form:
  "(nm = [] \<or> \<not> validFloatingPoint sp \<or> \<not> validFloatingPoint bu \<longrightarrow>
      handleAddItem now (fillForm nm sp bu st) = fillForm nm sp bu st \<and>
      data (handleAddItem now (fillForm nm sp bu st)) = data st) \<and>
   (nm \<noteq> [] \<and> validFloatingPoint sp \<and> validFloatingPoint bu \<longrightarrow>
      data (handleAddItem now (fillForm nm sp bu st)) =
        data st @ [\<lparr>name = nm, spend = parseFloat sp, budget = parseFloat bu, id_item = now\<rparr>] \<and>
      parseFloat sp \<noteq> NaN \<and> parseFloat bu \<noteq> NaN \<and>
      newItem (handleAddItem now (fillForm nm sp bu st)) =
        \<lparr>name_field = [], spend_field = [], budget_field = []\<rparr> \<and>
      (distinct (map id_item (data st)) \<and> now \<notin> id_item ` set (data st) \<longrightarrow>
         distinct (map id_item (data (handleAddItem now (fillForm nm sp bu st))))))"
proof (intro conjI impI)
  assume "nm = [] \<or> \<not> validFloatingPoint sp \<or> \<not> validFloatingPoint bu"
  then have "name_field (newItem (fillForm nm sp bu st)) = [] \<or>
             spend_field (newItem (fillForm nm sp bu st)) = [] \<or>
             budget_field (newItem (fillForm nm sp bu st)) = []"
    by (auto simp: numberInputValue_empty_iff)
  then show skip: "handleAddItem now (fillForm nm sp bu st) = fillForm nm sp bu st"
    by (rule handleAddItem_skips)
  show "data (handleAddItem now (fillForm nm sp bu st)) = data st"
    by (simp add: skip)
next
  assume ok: "nm \<noteq> [] \<and> validFloatingPoint sp \<and> validFloatingPoint bu"
  then have val: "numberInputValue sp = sp" "numberInputValue bu = bu" "sp \<noteq> []" "bu \<noteq> []"
    by (auto simp: numberInputValue_def validFloatingPoint_def)
  from ok val have app:
    "handleAddItem now (fillForm nm sp bu st) =
      \<lparr>data = data st @ [\<lparr>name = nm, spend = parseFloat sp, budget = parseFloat bu,
                            id_item = now\<rparr>],
       newItem = \<lparr>name_field = [], spend_field = [], budget_field = []\<rparr>\<rparr>"
    using handleAddItem_appends[of "fillForm nm sp bu st" now] by simp
  show "data (handleAddItem now (fillForm nm sp bu st)) =
        data st @ [\<lparr>name = nm, spend = parseFloat sp, budget = parseFloat bu, id_item = now\<rparr>]"
    by (simp add: app)
  show "parseFloat sp \<noteq> NaN" "parseFloat bu \<noteq> NaN"
    using ok by (simp_all add: parseFloat_valid)
  show "newItem (handleAddItem now (fillForm nm sp bu st)) =
        \<lparr>name_field = [], spend_field = [], budget_field = []\<rparr>"
    by (simp add: app)
  assume "distinct (map id_item (data st)) \<and> now \<notin> id_item ` set (data st)"
  then show "distinct (map id_item (data (handleAddItem now (fillForm nm sp bu st))))"
    by (simp add: app)
qed

theorem handleAddItem_form_witness:
  "\<not> validFloatingPoint (ascii ''abc'') \<and> \<not> validFloatingPoint [] \<and>
   validFloatingPoint (ascii ''12.5'') \<and> validFloatingPoint (ascii ''100'') \<and>
   handleAddItem 1700000000000 (fillForm (ascii ''x'') (ascii ''abc'') (ascii ''100'') initial_app) =
     fillForm (ascii ''x'') (ascii ''abc'') (ascii ''100'') initial_app \<and>
   data (handleAddItem 1700000000000
           (fillForm (ascii ''x'') (ascii ''abc'') (ascii ''100'') initial_app)) = initial_data \<and>
   data (handleAddItem 1700000000000
           (fillForm (ascii ''x'') [] (ascii ''100'') initial_app)) = initial_data \<and>
   data (handleAddItem 1700000000000
           (fillForm [] (ascii ''12.5'') (ascii ''100'') initial_app)) = initial_data \<and>
   data (handleAddItem 1700000000000
           (fillForm (ascii ''x'') (ascii ''12.5'') (ascii ''100'') initial_app)) =
     initial_data @
       [\<lparr>name = ascii ''x'', spend = Fin (25 / 2), budget = Fin 100, id_item = 1700000000000\<rparr>] \<and>
   distinct (map id_item (data (handleAddItem 1700000000000
           (fillForm (ascii ''x'') (ascii ''12.5'') (ascii ''100'') initial_app))))"
proof -
  have v: "\<not> validFloatingPoint (ascii ''abc'')" "\<not> validFloatingPoint []"
    "validFloatingPoint (ascii ''12.5'')" "validFloatingPoint (ascii ''100'')"
    by code_simp+
  have p1: "parseFloat (ascii ''12.5'') = Fin (25 / 2)" by code_simp
  have p2: "parseFloat (ascii ''100'') = Fin 100" by code_simp
  have x: "ascii ''x'' \<noteq> []" by (simp add: ascii_def)
  have d0: "data initial_app = initial_data" by (simp add: initial_app_def)
  have d: "distinct (map id_item (data initial_app)) \<and>
           1700000000000 \<notin> id_item ` set (data initial_app)"
    by (simp add: initial_app_def initial_data_def)
  note a = handleAddItem_form[of "ascii ''x''" "ascii ''abc''" "ascii ''100''"
      1700000000000 initial_app]
  note b = handleAddItem_form[of "ascii ''x''" "[]" "ascii ''100''" 1700000000000 initial_app]
  note c = handleAddItem_form[of "[]" "ascii ''12.5''" "ascii ''100''" 1700000000000 initial_app]
  note e = handleAddItem_form[of "ascii ''x''" "ascii ''12.5''" "ascii ''100''"
      1700000000000 initial_app]
  from a v(1) have a1: "handleAddItem 1700000000000
        (fillForm (ascii ''x'') (ascii ''abc'') (ascii ''100'') initial_app) =
      fillForm (ascii ''x'') (ascii ''abc'') (ascii ''100'') initial_app"
    and a2: "data (handleAddItem 1700000000000
           (fillForm (ascii ''x'') (ascii ''abc'') (ascii ''100'') initial_app)) = initial_data"
    unfolding d0[symmetric] by blast+
  from b v(2) have b1: "data (handleAddItem 1700000000000
           (fillForm (ascii ''x'') [] (ascii ''100'') initial_app)) = initial_data"
    unfolding d0[symmetric] by blast
  from c have c1: "data (handleAddItem 1700000000000
           (fillForm [] (ascii ''12.5'') (ascii ''100'') initial_app)) = initial_data"
    unfolding d0[symmetric] by blast
  from e x v(3,4) d have e1: "data (handleAddItem 1700000000000
           (fillForm (ascii ''x'') (ascii ''12.5'') (ascii ''100'') initial_app)) =
        data initial_app @
          [\<lparr>name = ascii ''x'', spend = parseFloat (ascii ''12.5''),
            budget = parseFloat (ascii ''100''), id_item = 1700000000000\<rparr>]"
    and e2: "distinct (map id_item (data (handleAddItem 1700000000000
           (fillForm (ascii ''x'') (ascii ''12.5'') (ascii ''100'') initial_app))))"
    by blast+
  from e1 have e3: "data (handleAddItem 1700000000000
           (fillForm (ascii ''x'') (ascii ''12.5'') (ascii ''100'') initial_app)) =
     initial_data @
       [\<lparr>name = ascii ''x'', spend = Fin (25 / 2), budget = Fin 100, id_item = 1700000000000\<rparr>]"
    by (simp only: p1 p2 d0)
  from v a1 a2 b1 c1 e3 e2 show ?thesis by blast
qed


section \<open>Deleting an item\<close>

lemma filter_single:
  assumes "length (filter (\<lambda>x. id_item x = i) xs) = 1"
  shows "\<exists>before it after. xs = before @ it # after \<and> id_item it = i \<and>
           filter (\<lambda>x. id_item x \<noteq> i) xs = before @ after"
proof -
  from assms have "filter (\<lambda>x. id_item x = i) xs \<noteq> []" by auto
  then obtain it where "it \<in> set xs" and it: "id_item it = i"
    by (auto simp: filter_empty_conv)
  then obtain before after where xs: "xs = before @ it # after"
    by (auto dest: split_list)
  with assms it have "filter (\<lambda>x. id_item x = i) before = []"
    "filter (\<lambda>x. id_item x = i) after = []"
    by simp_all
  then have "filter (\<lambda>x. id_item x \<noteq> i) before = before"
    "filter (\<lambda>x. id_item x \<noteq> i) after = after"
    by (simp_all add: filter_empty_conv filter_id_conv)
  with xs it have "filter (\<lambda>x. id_item x \<noteq> i) xs = before @ after" by simp
  with xs it show ?thesis by blast
qed

text \<open>
  Claim C7 says that exactly the item with the id is removed. When two items carry the id,
  as the two added in the same millisecond do, deleting it removes both: of nine items
  seven remain.
\<close>

theorem deleteItem_same_clock:
  "length (data added_twice) = 9 \<and>
   length (filter (\<lambda>it. id_item it = 1700000000000) (data added_twice)) = 2 \<and>
   length (data (deleteItem 1700000000000 added_twice)) = 7 \<and>
   map name (data (deleteItem 1700000000000 added_twice)) = map name initial_data"
proof -
  have v: "validFloatingPoint (ascii ''1'')" "validFloatingPoint (ascii ''2'')"
    "validFloatingPoint (ascii ''3'')" "validFloatingPoint (ascii ''4'')"
    by code_simp+
  then have val: "numberInputValue (ascii ''1'') \<noteq> []" "numberInputValue (ascii ''2'') \<noteq> []"
    "numberInputValue (ascii ''3'') \<noteq> []" "numberInputValue (ascii ''4'') \<noteq> []"
    by (simp_all add: numberInputValue_empty_iff)
  have nm: "ascii ''a'' \<noteq> []" "ascii ''b'' \<noteq> []"
    by (simp_all add: ascii_def)
  have d: "data added_twice = initial_data @
      [\<lparr>name = ascii ''a'', spend = parseFloat (numberInputValue (ascii ''1'')),
        budget = parseFloat (numberInputValue (ascii ''2'')), id_item = 1700000000000\<rparr>,
       \<lparr>name = ascii ''b'', spend = parseFloat (numberInputValue (ascii ''3'')),
        budget = parseFloat (numberInputValue (ascii ''4'')), id_item = 1700000000000\<rparr>]"
    unfolding added_twice_def
    by (simp add: handleAddItem_appends val nm initial_app_def)
  have keep: "filter (\<lambda>it. id_item it \<noteq> 1700000000000) initial_data = initial_data"
    and none: "filter (\<lambda>it. id_item it = 1700000000000) initial_data = []"
    and len: "length initial_data = 7"
    by (simp_all add: initial_data_def)
  show ?thesis
    by (simp add: deleteItem_def d keep none len)
qed

text \<open>
  Claim C7, amended. Deleting an id that no item carries leaves the state as it is: the
  same items, in the same number. In every case the form is untouched and what remains is
  the list without the items carrying the id, all of them, in their former order; when
  one item carries the id, exactly that item is cut out.
\<close>

theorem deleteItem_removes_all:
  "(i \<notin> id_item ` set (data st) \<longrightarrow> deleteItem i st = st) \<and>
   newItem (deleteItem i st) = newItem st \<and>
   data (deleteItem i st) = filter (\<lambda>it. id_item it \<noteq> i) (data st) \<and>
   subseq (data (deleteItem i st)) (data st) \<and>
   i \<notin> id_item ` set (data (deleteItem i st)) \<and>
   length (data (deleteItem i st)) + length (filter (\<lambda>it. id_item it = i) (data st)) =
     length (data st) \<and>
   (length (filter (\<lambda>it. id_item it = i) (data st)) = 1 \<longrightarrow>
      (\<exists>before it after. data st = before @ it # after \<and> id_item it = i \<and>
         data (deleteItem i st) = before @ after))"
proof (intro conjI impI)
  assume "i \<notin> id_item ` set (data st)"
  then have "filter (\<lambda>it. id_item it \<noteq> i) (data st) = data st"
    by (auto simp: filter_id_conv)
  then show "deleteItem i st = st" by (simp add: deleteItem_def)
next
  show "newItem (deleteItem i st) = newItem st" by (simp add: deleteItem_def)
  show "data (deleteItem i st) = filter (\<lambda>it. id_item it \<noteq> i) (data st)"
    by (simp add: deleteItem_def)
  show "subseq (data (deleteItem i st)) (data st)" by (simp add: deleteItem_def)
  show "i \<notin> id_item ` set (data (deleteItem i st))" by (auto simp: deleteItem_def)
  show "length (data (deleteItem i st)) + length (filter (\<lambda>it. id_item it = i) (data st)) =
        length (data st)"
    using sum_length_filter_compl[of "\<lambda>it. id_item it = i" "data st"]
    by (simp add: deleteItem_def)
next
  assume "length (filter (\<lambda>it. id_item it = i) (data st)) = 1"
  then show "\<exists>before it after. data st = before @ it # after \<and> id_item it = i \<and>
         data (deleteItem i st) = before @ after"
    using filter_single[of i "data st"] by (simp add: deleteItem_def)
qed

theorem deleteItem_removes_all_witness:
  "99 \<notin> id_item ` set (data initial_app) \<and> deleteItem 99 initial_app = initial_app \<and>
   length (filter (\<lambda>it. id_item it = 3) (data initial_app)) = 1 \<and>
   map id_item (data (deleteItem 3 initial_app)) = [1, 2, 4, 5, 6, 7] \<and>
   length (data (deleteItem 3 initial_app)) = 6"
proof -
  have a: "99 \<notin> id_item ` set (data initial_app)"
    by (simp add: initial_app_def initial_data_def)
  have b: "length (filter (\<lambda>it. id_item it = 3) (data initial_app)) = 1"
    by (simp add: initial_app_def initial_data_def)
  from a deleteItem_removes_all[of 99 initial_app]
  have c: "deleteItem 99 initial_app = initial_app"
    by blast
  from b deleteItem_removes_all[of 3 initial_app]
  obtain before it after where
    d: "data initial_app = before @ it # after" "data (deleteItem 3 initial_app) = before @ after"
    by blast
  have "length (data initial_app) = 7" by (simp add: initial_app_def initial_data_def)
  with d have e: "length (data (deleteItem 3 initial_app)) = 6" by simp
  from deleteItem_removes_all[of 3 initial_app]
  have "data (deleteItem 3 initial_app) = filter (\<lambda>it. id_item it \<noteq> 3) (data initial_app)"
    by blast
  then have f: "map id_item (data (deleteItem 3 initial_app)) = [1, 2, 4, 5, 6, 7]"
    by (simp add: initial_app_def initial_data_def)
  from a b c e f show ?thesis by blast
qed


section \<open>The category summary\<close>

lemma set_first_seen [simp]: "set (first_seen xs) = set xs"
  by (induction xs rule: first_seen.induct) auto

lemma distinct_first_seen [simp]: "distinct (first_seen xs)"
  by (induction xs rule: first_seen.induct) auto

lemma absorb_Nil [simp]: "absorb [] kv = kv"
  by (simp add: absorb_def in_category_def)

lemma fst_absorb [simp]: "fst (absorb as kv) = fst kv"
  by (simp add: absorb_def)

lemma absorb_Cons_other:
  "category a \<noteq> fst kv \<Longrightarrow> absorb (a # as) kv = absorb as kv"
  by (simp add: absorb_def in_category_def)

lemma absorb_Cons_same:
  "category a = k \<Longrightarrow>
   absorb (a # as) (k, v) =
   absorb as (k, v\<lparr>spend := js_add (spend v) (spend a), budget := js_add (budget v) (budget a)\<rparr>)"
  by (simp add: absorb_def in_category_def)

lemma absorb_other_keys:
  assumes "category a \<notin> fst ` set kvs"
  shows "map (absorb as) kvs = map (absorb (a # as)) kvs"
proof (rule map_cong[OF refl])
  fix kv
  assume "kv \<in> set kvs"
  with assms have "category a \<noteq> fst kv" by force
  then show "absorb as kv = absorb (a # as) kv" by (simp add: absorb_Cons_other)
qed

lemma keys_fresh_entries: "fst ` fresh_entry ` S = S"
  by (force simp: fresh_entry_def)

lemma summary_step_present:
  assumes "c \<in> fst ` set obj" and "category a = c"
  shows "summary_step obj a =
         map (\<lambda>(k, v). if k = c
                then (k, v\<lparr>spend := js_add (spend v) (spend a), budget := js_add (budget v) (budget a)\<rparr>)
                else (k, v)) obj"
proof -
  from assms(1) have "map_of obj c \<noteq> None"
    by (simp add: map_of_eq_None_iff)
  then show ?thesis
    using assms(2)
    by (auto simp: summary_step_def update_property_def Let_def intro!: map_cong split: prod.splits)
qed

lemma update_property_absent:
  "c \<notin> fst ` set obj \<Longrightarrow> update_property c f obj = obj"
  by (induction obj) (auto simp: update_property_def)

lemma update_property_last:
  "c \<notin> fst ` set obj \<Longrightarrow> update_property c f (obj @ [(c, v)]) = obj @ [(c, f v)]"
  using update_property_absent[of c obj f] by (simp add: update_property_def)

lemma summary_step_absent:
  assumes "c \<notin> fst ` set obj" and "category a = c"
  shows "summary_step obj a =
         obj @ [(c, \<lparr>name = c, spend = js_add (Fin 0) (spend a), budget = js_add (Fin 0) (budget a)\<rparr>)]"
proof -
  from assms(1) have "map_of obj c = None"
    by (simp add: map_of_eq_None_iff)
  then show ?thesis
    using assms by (simp add: summary_step_def Let_def update_property_last)
qed

lemma forEach_summary_absorb:
  "distinct (map fst obj) \<Longrightarrow>
   forEach_summary obj as =
   map (absorb as)
     (obj @ map fresh_entry (first_seen (filter (\<lambda>c. c \<notin> fst ` set obj) (map category as))))"
proof (induction as arbitrary: obj)
  case Nil
  then show ?case by simp
next
  case (Cons a as)
  let ?c = "category a"
  show ?case
  proof (cases "?c \<in> fst ` set obj")
    case True
    let ?upd = "\<lambda>(k, v). if k = ?c
                then (k, v\<lparr>spend := js_add (spend v) (spend a), budget := js_add (budget v) (budget a)\<rparr>)
                else (k, v)"
    let ?obj' = "map ?upd obj"
    let ?new = "first_seen (filter (\<lambda>c. c \<notin> fst ` set obj) (map category as))"
    have step: "summary_step obj a = ?obj'"
      using True by (rule summary_step_present) simp
    have keys: "map fst ?obj' = map fst obj"
      by (induction obj) auto
    then have keys_set: "fst ` set ?obj' = fst ` set obj"
      by (metis list.set_map)
    from Cons.prems have "distinct (map fst ?obj')" unfolding keys .
    then have "forEach_summary ?obj' as = map (absorb as) (?obj' @ map fresh_entry ?new)"
      using Cons.IH[of ?obj'] keys_set by simp
    moreover have "map (absorb as) ?obj' = map (absorb (a # as)) obj"
      by (auto simp: absorb_Cons_same absorb_Cons_other)
    moreover have "map (absorb as) (map fresh_entry ?new) = map (absorb (a # as)) (map fresh_entry ?new)"
      using True by (intro absorb_other_keys) (simp add: keys_fresh_entries)
    ultimately show ?thesis
      using True step by simp
  next
    case False
    let ?e = "(?c, \<lparr>name = ?c, spend = js_add (Fin 0) (spend a), budget = js_add (Fin 0) (budget a)\<rparr>)"
    let ?obj' = "obj @ [?e]"
    let ?new = "first_seen (filter (\<lambda>c. c \<notin> fst ` set ?obj') (map category as))"
    have step: "summary_step obj a = ?obj'"
      using False by (rule summary_step_absent) simp
    from Cons.prems False have "distinct (map fst ?obj')" by simp
    then have ih: "forEach_summary ?obj' as = map (absorb as) (?obj' @ map fresh_entry ?new)"
      by (rule Cons.IH)
    have new: "first_seen (filter (\<lambda>c. c \<notin> fst ` set obj) (map category (a # as))) = ?c # ?new"
      using False by (simp add: conj_commute)
    have "map (absorb as) obj = map (absorb (a # as)) obj"
      using False by (rule absorb_other_keys)
    moreover have "absorb as ?e = absorb (a # as) (fresh_entry ?c)"
      by (simp add: absorb_Cons_same fresh_entry_def)
    moreover have "map (absorb as) (map fresh_entry ?new) = map (absorb (a # as)) (map fresh_entry ?new)"
      by (intro absorb_other_keys) (simp add: keys_fresh_entries)
    ultimately show ?thesis
      using step ih new by simp
  qed
qed

lemma categorySummary_eq:
  "categorySummary as =
   map (\<lambda>c. \<lparr>name = c,
             spend = sum_from_left (map spend (in_category c as)),
             budget = sum_from_left (map budget (in_category c as))\<rparr>)
       (first_seen (map category as))"
  using forEach_summary_absorb[of "[]" as]
  by (simp add: categorySummary_def absorb_def fresh_entry_def sum_from_left_def comp_def)


section \<open>Sums that do not round\<close>

lemma round_half_even_of_int [simp]: "round_half_even (of_int k) = k"
  by (simp add: round_half_even_def)

lemma pow2_pos: "0 < pow2 e"
  by (simp add: pow2_def)

lemma floor_log2_of_int:
  assumes "0 < n"
  shows "floor_log2 (of_int n) = bitlen n - 1"
  using assms by (simp add: floor_log2_def)

lemma scaled_whole:
  assumes "0 < n" and "n \<le> 9007199254740992"
  shows "\<exists>m. of_int n / pow2 (bitlen n - 1 - 52) = (of_int m :: rat)"
proof -
  let ?b = "bitlen n"
  from assms(1) bitlen_bounds[of n]
  have lo: "2 ^ nat (?b - 1) \<le> n" and hi: "n < 2 ^ nat ?b" by auto
  from assms(1) have b1: "1 \<le> ?b"
    using bitlen_eq_zero_iff[of n] bitlen_nonneg[of n] by linarith
  have "(2::int) ^ nat (?b - 1) \<le> 2 ^ 53" using lo assms(2) by simp
  then have "nat (?b - 1) \<le> 53" by (rule power_le_imp_le_exp[rotated]) simp
  then have b54: "?b \<le> 54" by linarith
  show ?thesis
  proof (cases "?b \<le> 53")
    case True
    then have "pow2 (?b - 1 - 52) = 1 / 2 ^ nat (53 - ?b)"
      by (cases "?b = 53") (simp_all add: pow2_def algebra_simps)
    then have "of_int n / pow2 (?b - 1 - 52) = (of_int (n * 2 ^ nat (53 - ?b)) :: rat)"
      by simp
    then show ?thesis by blast
  next
    case False
    with b54 have b: "?b = 54" by simp
    with lo assms(2) have n: "n = 9007199254740992" by simp
    have "pow2 (?b - 1 - 52) = 2" using b by (simp add: pow2_def)
    then have "of_int n / pow2 (?b - 1 - 52) = (of_int 4503599627370496 :: rat)"
      using n by simp
    then show ?thesis by blast
  qed
qed

lemma bitlen_small:
  assumes "0 < n" and "n \<le> 9007199254740992"
  shows "0 \<le> bitlen n - 1" and "bitlen n - 1 \<le> 53"
proof -
  from assms(1) bitlen_bounds[of n]
  have lo: "2 ^ nat (bitlen n - 1) \<le> n" by auto
  from assms(1) show "0 \<le> bitlen n - 1"
    using bitlen_eq_zero_iff[of n] bitlen_nonneg[of n] by linarith
  have "(2::int) ^ nat (bitlen n - 1) \<le> 2 ^ 53" using lo assms(2) by simp
  then have "nat (bitlen n - 1) \<le> 53" by (rule power_le_imp_le_exp[rotated]) simp
  then show "bitlen n - 1 \<le> 53" by linarith
qed

lemma round64_of_pos_int:
  assumes "0 < n" and "n \<le> 9007199254740992"
  shows "round64 (of_int n) = Fin (of_int n)"
proof -
  let ?e = "bitlen n - 1"
  from scaled_whole[OF assms] obtain m where m: "of_int n / pow2 (?e - 52) = (of_int m :: rat)"
    by blast
  then have unscale: "(of_int m :: rat) * pow2 (?e - 52) = of_int n"
    using pow2_pos[of "?e - 52"] by (simp add: field_simps)
  from bitlen_small[OF assms] have e: "max ?e (- 1022) = ?e" "\<not> 1024 \<le> ?e" "?e \<noteq> 1023"
    by simp_all
  from assms(1) have pos: "(0::rat) < of_int n" "(of_int n :: rat) \<noteq> 0" "\<bar>of_int n :: rat\<bar> = of_int n"
    by simp_all
  show ?thesis
    unfolding round64_def Let_def pos(3) floor_log2_of_int[OF assms(1)] e(1) m
    using pos e unscale by simp
qed

lemma round64_of_int:
  assumes "\<bar>n\<bar> \<le> 9007199254740992"
  shows "round64 (of_int n) = Fin (of_int n)"
proof -
  consider "n = 0" | "0 < n" | "n < 0" by linarith
  then show ?thesis
  proof cases
    case 1
    then show ?thesis by (simp add: round64_def)
  next
    case 2
    with assms show ?thesis by (intro round64_of_pos_int) simp_all
  next
    case 3
    let ?k = "- n"
    from 3 assms have k: "0 < ?k" "?k \<le> 9007199254740992" by simp_all
    let ?e = "bitlen ?k - 1"
    from scaled_whole[OF k] obtain m where m: "of_int ?k / pow2 (?e - 52) = (of_int m :: rat)"
      by blast
    then have unscale: "(of_int m :: rat) * pow2 (?e - 52) = of_int ?k"
      using pow2_pos[of "?e - 52"] by (simp add: field_simps)
    from bitlen_small[OF k] have e: "max ?e (- 1022) = ?e" "\<not> 1024 \<le> ?e" "?e \<noteq> 1023"
      by simp_all
    from 3 have neg: "\<not> (0::rat) < of_int n" "(of_int n :: rat) \<noteq> 0"
      "\<bar>of_int n :: rat\<bar> = of_int ?k"
      by simp_all
    show ?thesis
      unfolding round64_def Let_def neg(3) floor_log2_of_int[OF k(1)] e(1) m
      using neg e unscale by simp
  qed
qed

lemma amount_Fin [simp]: "amount (Fin q) = q"
  by (simp add: amount_def)

lemma magnitude_Fin [simp]: "magnitude (Fin q) = \<bar>q\<bar>"
  by (simp add: magnitude_def)

lemma whole_Fin_of_int [simp]: "whole (Fin (of_int n))"
  by (simp add: whole_def)

lemma wholeE:
  assumes "whole x"
  obtains n where "x = Fin (of_int n)"
  using assms by (cases x) (auto simp: whole_def intro: that[of "\<lfloor>_\<rfloor>"])

lemma js_add_exact:
  assumes "whole x" and "whole y" and "magnitude x + magnitude y \<le> 9007199254740992"
  shows "js_add x y = Fin (amount x + amount y)" and "whole (js_add x y)"
    and "magnitude (js_add x y) \<le> magnitude x + magnitude y"
proof -
  from assms(1) obtain a where x: "x = Fin (of_int a)" by (rule wholeE)
  from assms(2) obtain b where y: "y = Fin (of_int b)" by (rule wholeE)
  from assms(3) x y have "(of_int (\<bar>a\<bar> + \<bar>b\<bar>) :: rat) \<le> of_int 9007199254740992"
    by (simp add: magnitude_def)
  then have "\<bar>a\<bar> + \<bar>b\<bar> \<le> 9007199254740992"
    by (simp only: of_int_le_iff)
  then have "\<bar>a + b\<bar> \<le> 9007199254740992" by linarith
  then have r: "round64 (of_int (a + b)) = Fin (of_int (a + b))" by (rule round64_of_int)
  then have eq: "js_add x y = Fin (of_int (a + b))" using x y by simp
  then show "js_add x y = Fin (amount x + amount y)" using x y by (simp add: amount_def)
  from eq show "whole (js_add x y)" by (simp only: whole_Fin_of_int)
  from eq x y show "magnitude (js_add x y) \<le> magnitude x + magnitude y"
    by (simp add: magnitude_def del: of_int_add)
qed

lemma magnitude_nonneg [simp]: "0 \<le> magnitude x"
  by (cases x) (simp_all add: magnitude_def)

lemma foldl_exact:
  "list_all whole xs \<Longrightarrow> whole acc \<Longrightarrow>
   magnitude acc + sum_list (map magnitude xs) \<le> 9007199254740992 \<Longrightarrow>
   foldl js_add acc xs = Fin (amount acc + sum_list (map amount xs)) \<and>
   whole (foldl js_add acc xs) \<and>
   magnitude (foldl js_add acc xs) \<le> magnitude acc + sum_list (map magnitude xs)"
proof (induction xs arbitrary: acc)
  case Nil
  then show ?case by (cases acc) (simp_all add: amount_def whole_def)
next
  case (Cons x xs)
  from Cons.prems have wx: "whole x" and wxs: "list_all whole xs" by simp_all
  have "0 \<le> sum_list (map magnitude xs)" by (rule sum_list_nonneg) auto
  with Cons.prems(3) have small: "magnitude acc + magnitude x \<le> 9007199254740992" by simp
  note step = js_add_exact[OF Cons.prems(2) wx small]
  from step(3) Cons.prems(3)
  have "magnitude (js_add acc x) + sum_list (map magnitude xs) \<le> 9007199254740992" by simp
  note ih = Cons.IH[OF wxs step(2) this]
  have am: "amount (js_add acc x) = amount acc + amount x"
    by (simp only: step(1) amount_Fin)
  from ih[THEN conjunct1] am
  have "foldl js_add acc (x # xs) = Fin (amount acc + sum_list (map amount (x # xs)))"
    by (simp add: add.assoc)
  moreover from ih[THEN conjunct2, THEN conjunct1] have "whole (foldl js_add acc (x # xs))"
    by simp
  moreover from ih[THEN conjunct2, THEN conjunct2] step(3)
  have "magnitude (foldl js_add acc (x # xs)) \<le> magnitude acc + sum_list (map magnitude (x # xs))"
    by simp
  ultimately show ?case by blast
qed

lemma sum_from_left_exact:
  assumes "exact_amounts xs"
  shows "sum_from_left xs = Fin (sum_list (map amount xs))"
    and "whole (sum_from_left xs)"
    and "magnitude (sum_from_left xs) \<le> sum_list (map magnitude xs)"
proof -
  have z: "whole (Fin 0)" "magnitude (Fin 0) = 0" "amount (Fin 0) = 0"
    by (simp_all add: whole_def magnitude_def amount_def)
  from assms have "list_all whole xs"
    and "magnitude (Fin 0) + sum_list (map magnitude xs) \<le> 9007199254740992"
    by (simp_all add: exact_amounts_def z)
  note r = foldl_exact[OF this(1) z(1) this(2)]
  from r[THEN conjunct1] show "sum_from_left xs = Fin (sum_list (map amount xs))"
    by (simp add: sum_from_left_def z)
  from r[THEN conjunct2, THEN conjunct1] show "whole (sum_from_left xs)"
    by (simp add: sum_from_left_def)
  from r[THEN conjunct2, THEN conjunct2]
  show "magnitude (sum_from_left xs) \<le> sum_list (map magnitude xs)"
    by (simp add: sum_from_left_def z)
qed


section \<open>Regrouping the items by category\<close>

lemma sum_list_filter_split:
  fixes f :: "'a \<Rightarrow> rat"
  assumes "\<And>x. \<not> (P x \<and> Q x)"
  shows "sum_list (map f (filter P xs)) + sum_list (map f (filter Q xs)) =
         sum_list (map f (filter (\<lambda>x. P x \<or> Q x) xs))"
  using assms by (induction xs) auto

lemma regroup:
  fixes f :: "analyzed \<Rightarrow> rat"
  assumes "distinct cs"
  shows "sum_list (map (\<lambda>c. sum_list (map f (in_category c as))) cs) =
         sum_list (map f (filter (\<lambda>a. category a \<in> set cs) as))"
  using assms
proof (induction cs)
  case Nil
  then show ?case by simp
next
  case (Cons c cs)
  then have "\<And>a. \<not> (category a = c \<and> category a \<in> set cs)" by auto
  from sum_list_filter_split[of "\<lambda>a. category a = c" "\<lambda>a. category a \<in> set cs" f as, OF this]
  show ?case using Cons by (simp add: in_category_def)
qed

lemma regroup_all:
  fixes f :: "analyzed \<Rightarrow> rat"
  shows "sum_list (map (\<lambda>c. sum_list (map f (in_category c as))) (first_seen (map category as))) =
         sum_list (map f as)"
proof -
  have "filter (\<lambda>a. category a \<in> set (first_seen (map category as))) as = as"
    by (simp add: filter_id_conv)
  with regroup[of "first_seen (map category as)" f as] show ?thesis by simp
qed

lemma exact_amounts_in_category:
  assumes "exact_amounts (map g as)"
  shows "exact_amounts (map g (in_category c as))"
proof -
  have "sum_list (map magnitude (map g (filter P as))) \<le> sum_list (map magnitude (map g as))" for P
    by (induction as) (auto intro: add_increasing)
  from this[of "\<lambda>a. category a = c"] assms
  have "sum_list (map magnitude (map g (in_category c as))) \<le> 9007199254740992"
    unfolding exact_amounts_def in_category_def by linarith
  moreover from assms have "list_all whole (map g (in_category c as))"
    by (auto simp: exact_amounts_def in_category_def list_all_iff)
  ultimately show ?thesis by (simp add: exact_amounts_def)
qed

lemma conservation_exact:
  fixes g :: "analyzed \<Rightarrow> jsnum"
  assumes "exact_amounts (map g as)"
  shows "sum_from_left (map (\<lambda>c. sum_from_left (map g (in_category c as)))
                            (first_seen (map category as))) =
         sum_from_left (map g as)"
proof -
  let ?cats = "first_seen (map category as)"
  let ?part = "\<lambda>c. sum_from_left (map g (in_category c as))"
  note part = sum_from_left_exact[OF exact_amounts_in_category[OF assms]]
  have whole_parts: "list_all whole (map ?part ?cats)"
    by (simp add: list_all_iff part(2))
  have "sum_list (map magnitude (map ?part ?cats)) \<le>
        sum_list (map (\<lambda>c. sum_list (map (magnitude \<circ> g) (in_category c as))) ?cats)"
    unfolding map_map comp_def using part(3)
    by (intro sum_list_mono) (simp add: comp_def)
  also have "\<dots> = sum_list (map (magnitude \<circ> g) as)"
    by (rule regroup_all)
  also have "\<dots> \<le> 9007199254740992"
    using assms by (simp add: exact_amounts_def comp_def)
  finally have "exact_amounts (map ?part ?cats)"
    using whole_parts by (simp add: exact_amounts_def)
  then have "sum_from_left (map ?part ?cats) = Fin (sum_list (map amount (map ?part ?cats)))"
    by (rule sum_from_left_exact(1))
  also have "sum_list (map amount (map ?part ?cats)) =
             sum_list (map (\<lambda>c. sum_list (map (amount \<circ> g) (in_category c as))) ?cats)"
    by (simp add: comp_def part(1))
  also have "\<dots> = sum_list (map (amount \<circ> g) as)"
    by (rule regroup_all)
  also have "Fin (sum_list (map (amount \<circ> g) as)) = sum_from_left (map g as)"
    using sum_from_left_exact(1)[OF assms] by (simp add: comp_def)
  finally show ?thesis .
qed

lemma analyzeItem_sel [simp]:
  "name (analyzeItem h it) = name it"
  "spend (analyzeItem h it) = spend it"
  "budget (analyzeItem h it) = budget it"
  "id_item (analyzeItem h it) = id_item it"
  "category (analyzeItem h it) = classifyItem h (name it)"
  by (simp_all add: analyzeItem_def Let_def)

lemma map_analyzedData [simp]:
  "map spend (analyzedData h items) = map spend items"
  "map budget (analyzedData h items) = map budget items"
  "map name (analyzedData h items) = map name items"
  "map id_item (analyzedData h items) = map id_item items"
  "map category (analyzedData h items) = map (\<lambda>it. classifyItem h (name it)) items"
  by (simp_all add: analyzedData_def comp_def)

lemma total_sums:
  "totalSpend as = sum_from_left (map spend as)"
  "totalBudget as = sum_from_left (map budget as)"
  by (simp_all add: totalSpend_def totalBudget_def sum_from_left_def reduce_foldl foldl_map)

text \<open>
  Claim C5, amended. When the spend of the items adds up without rounding (whole amounts
  whose magnitudes sum to at most \<open>2^53\<close>), the sum of the spend over the summaries is
  the sum of the spend over the items: \<open>totalSpend\<close>. Likewise for the budget.
\<close>

theorem conservation_of_exact_amounts:
  "(exact_amounts (map spend items) \<longrightarrow>
      sum_from_left (map spend (categorySummary (analyzedData h items))) =
      totalSpend (analyzedData h items)) \<and>
   (exact_amounts (map budget items) \<longrightarrow>
      sum_from_left (map budget (categorySummary (analyzedData h items))) =
      totalBudget (analyzedData h items))"
proof (intro conjI impI)
  assume "exact_amounts (map spend items)"
  then have "exact_amounts (map spend (analyzedData h items))" by simp
  from conservation_exact[OF this]
  show "sum_from_left (map spend (categorySummary (analyzedData h items))) =
        totalSpend (analyzedData h items)"
    by (simp add: categorySummary_eq total_sums comp_def)
next
  assume "exact_amounts (map budget items)"
  then have "exact_amounts (map budget (analyzedData h items))" by simp
  from conservation_exact[OF this]
  show "sum_from_left (map budget (categorySummary (analyzedData h items))) =
        totalBudget (analyzedData h items)"
    by (simp add: categorySummary_eq total_sums comp_def)
qed

text \<open>
  Claim C4. For the analyzed items of every item list, the summaries carry exactly the
  categories of the items, each once, in the order of their first occurrence: nothing is
  sorted and no category without an item appears. The spend and the budget of a summary
  are the sums, from left to right, of the spend and the budget of the items of its
  category.
\<close>

theorem categorySummary_first_seen:
  "map name (categorySummary (analyzedData h items)) =
     first_seen (map category (analyzedData h items)) \<and>
   distinct (map name (categorySummary (analyzedData h items))) \<and>
   set (map name (categorySummary (analyzedData h items))) =
     set (map category (analyzedData h items)) \<and>
   categorySummary (analyzedData h items) =
     map (\<lambda>c. \<lparr>name = c,
               spend = sum_from_left (map spend (in_category c (analyzedData h items))),
               budget = sum_from_left (map budget (in_category c (analyzedData h items)))\<rparr>)
         (first_seen (map category (analyzedData h items)))"
proof -
  have names: "map name (categorySummary as) = first_seen (map category as)" for as
    by (simp add: categorySummary_eq comp_def)
  show ?thesis
    unfolding names by (simp add: categorySummary_eq)
qed

text \<open>
  Claim C10. \<open>classifyItem\<close> returns one of five values, all different: the four
  categories of the rule table or the default. So there are never more than five
  summaries.
\<close>

theorem classifyItem_five_categories:
  "classifyItem h nm \<in> {CAT_MARKETING, CAT_OPERATIONS, CAT_PERSONNEL, CAT_IT, CAT_OTHER} \<and>
   distinct [CAT_MARKETING, CAT_OPERATIONS, CAT_PERSONNEL, CAT_IT, CAT_OTHER] \<and>
   length (categorySummary (analyzedData h items)) \<le> 5"
proof (intro conjI)
  let ?five = "{CAT_MARKETING, CAT_OPERATIONS, CAT_PERSONNEL, CAT_IT, CAT_OTHER}"
  have range: "classifyItem h n \<in> ?five" for n
    using classify_loop_range[of h n CATEGORY_RULES]
    by (simp add: classifyItem_def CATEGORY_RULES_def)
  then show "classifyItem h nm \<in> ?five" .
  show "distinct [CAT_MARKETING, CAT_OPERATIONS, CAT_PERSONNEL, CAT_IT, CAT_OTHER]"
    by (simp add: CAT_MARKETING_def CAT_OPERATIONS_def CAT_PERSONNEL_def CAT_IT_def CAT_OTHER_def)
  let ?cats = "first_seen (map category (analyzedData h items))"
  have "length (categorySummary (analyzedData h items)) = length ?cats"
    by (simp add: categorySummary_eq)
  also have "\<dots> = card (set ?cats)"
    by (rule distinct_card[symmetric, OF distinct_first_seen])
  also have "\<dots> \<le> card ?five"
  proof (rule card_mono)
    show "finite ?five" by simp
    show "set ?cats \<subseteq> ?five" using range by auto
  qed
  also have "\<dots> \<le> 5"
    by (simp add: card_insert_if)
  finally show "length (categorySummary (analyzedData h items)) \<le> 5" .
qed



section \<open>The sample items\<close>

lemma round64_numeral:
  "(numeral k :: int) \<le> 9007199254740992 \<Longrightarrow> round64 (numeral k) = Fin (numeral k)"
  using round64_of_int[of "numeral k"] by simp

lemma round64_zero: "round64 0 = Fin 0"
  by (simp add: round64_def)

lemma round64_one: "round64 1 = Fin 1"
  using round64_of_int[of 1] by simp

lemmas exact_sums = sum_from_left_def round64_numeral round64_zero round64_one

lemmas categories_def =
  CAT_MARKETING_def CAT_OPERATIONS_def CAT_PERSONNEL_def CAT_IT_def CAT_OTHER_def

lemma sample_categories:
  "classifyItem sample_host [0x8FA6, 0x516C, 0x5BA4, 0x79DF, 0x91D1] = CAT_OPERATIONS"
  "classifyItem sample_host (ascii ''AWS '' @ [0x96F2, 0x7AEF, 0x4F3A, 0x670D, 0x5668]) = CAT_IT"
  "classifyItem sample_host (ascii ''Facebook '' @ [0x5EE3, 0x544A, 0x6295, 0x653E]) = CAT_MARKETING"
  "classifyItem sample_host [0x54E1, 0x5DE5, 0x5348, 0x9910, 0x88DC, 0x52A9] = CAT_PERSONNEL"
  "classifyItem sample_host [0x8FA6, 0x516C, 0x5BA4, 0x6587, 0x5177] = CAT_OPERATIONS"
  "classifyItem sample_host [0x5C08, 0x696D, 0x8CAC, 0x4EFB, 0x4FDD, 0x96AA] = CAT_OPERATIONS"
  "classifyItem sample_host (ascii ''Google '' @ [0x95DC, 0x9375, 0x5B57]) = CAT_MARKETING"
  "classifyItem sample_host [0x5EE3, 0x544A] = CAT_MARKETING"
  "classifyItem sample_host [0x79DF, 0x91D1] = CAT_OPERATIONS"
  by (simp_all add: ev)

lemma in_category_analyzedData:
  "map g (in_category c (analyzedData h items)) =
   map (g \<circ> analyzeItem h) (filter (\<lambda>it. classifyItem h (name it) = c) items)"
  by (simp add: in_category_def analyzedData_def filter_map comp_def)

theorem categorySummary_first_seen_witness:
  "map name (categorySummary (analyzedData sample_host initial_data)) =
     [CAT_OPERATIONS, CAT_IT, CAT_MARKETING, CAT_PERSONNEL] \<and>
   map spend (categorySummary (analyzedData sample_host initial_data)) =
     [Fin 66500, Fin 12500, Fin 50000, Fin 6800] \<and>
   map budget (categorySummary (analyzedData sample_host initial_data)) =
     [Fin 66000, Fin 15000, Fin 55000, Fin 8000]"
proof -
  have fs: "first_seen (map category (analyzedData sample_host initial_data)) =
            [CAT_OPERATIONS, CAT_IT, CAT_MARKETING, CAT_PERSONNEL]"
    by (simp add: initial_data_def sample_categories) (simp add: categories_def)
  note inst = categorySummary_first_seen[of sample_host initial_data]
  from inst have n: "map name (categorySummary (analyzedData sample_host initial_data)) =
           [CAT_OPERATIONS, CAT_IT, CAT_MARKETING, CAT_PERSONNEL]"
    unfolding fs by blast
  from inst have eq: "categorySummary (analyzedData sample_host initial_data) =
     map (\<lambda>c. \<lparr>name = c,
               spend = sum_from_left (map spend (in_category c (analyzedData sample_host initial_data))),
               budget = sum_from_left (map budget (in_category c (analyzedData sample_host initial_data)))\<rparr>)
         [CAT_OPERATIONS, CAT_IT, CAT_MARKETING, CAT_PERSONNEL]"
    unfolding fs by blast
  have s: "map spend (categorySummary (analyzedData sample_host initial_data)) =
           [Fin 66500, Fin 12500, Fin 50000, Fin 6800]"
    unfolding eq in_category_analyzedData
    by (simp add: initial_data_def sample_categories comp_def) (simp add: categories_def exact_sums)
  have b: "map budget (categorySummary (analyzedData sample_host initial_data)) =
           [Fin 66000, Fin 15000, Fin 55000, Fin 8000]"
    unfolding eq in_category_analyzedData
    by (simp add: initial_data_def sample_categories comp_def) (simp add: categories_def exact_sums)
  from n s b show ?thesis by blast
qed

text \<open>
  Claim C5 states the conservation for every item list. Additions round, and the summary
  adds the amounts in another order than the total does: for two advertisements of 1 and
  rents of \<open>2^53\<close> and 1, the summaries hold 2 and \<open>2^53\<close>, which sum to \<open>2^53 + 2\<close>,
  the total spend is \<open>2^53\<close>, and the amounts themselves sum to \<open>2^53 + 3\<close>.
\<close>

theorem conservation_counterexample:
  "map spend (categorySummary (analyzedData sample_host rounding_items)) =
     [Fin 2, Fin 9007199254740992] \<and>
   sum_from_left (map spend (categorySummary (analyzedData sample_host rounding_items))) =
     Fin 9007199254740994 \<and>
   totalSpend (analyzedData sample_host rounding_items) = Fin 9007199254740992 \<and>
   sum_from_left (map spend (categorySummary (analyzedData sample_host rounding_items))) \<noteq>
     totalSpend (analyzedData sample_host rounding_items) \<and>
   sum_list (map amount (map spend rounding_items)) = 9007199254740995"
proof -
  have tie: "round64 9007199254740993 = Fin 9007199254740992"
    by code_simp
  have top: "round64 9007199254740994 = Fin 9007199254740994"
    by code_simp
  have fs: "first_seen (map category (analyzedData sample_host rounding_items)) =
            [CAT_MARKETING, CAT_OPERATIONS]"
    by (simp add: rounding_items_def sample_categories) (simp add: categories_def)
  have a: "map spend (categorySummary (analyzedData sample_host rounding_items)) =
     [Fin 2, Fin 9007199254740992]"
    unfolding categorySummary_eq fs map_map comp_def in_category_analyzedData
    by (simp add: rounding_items_def sample_categories comp_def)
       (simp add: categories_def exact_sums tie)
  have b: "sum_from_left [Fin 2, Fin 9007199254740992] = Fin 9007199254740994"
    by (simp add: exact_sums top)
  have c: "totalSpend (analyzedData sample_host rounding_items) = Fin 9007199254740992"
    by (simp add: total_sums rounding_items_def exact_sums tie)
  have d: "sum_list (map amount (map spend rounding_items)) = 9007199254740995"
    by (simp add: rounding_items_def)
  from a b c d show ?thesis by simp
qed

theorem conservation_of_exact_amounts_witness:
  "exact_amounts (map spend initial_data) \<and> exact_amounts (map budget initial_data) \<and>
   sum_from_left (map spend (categorySummary (analyzedData sample_host initial_data))) =
     Fin 135800 \<and>
   totalSpend (analyzedData sample_host initial_data) = Fin 135800 \<and>
   sum_from_left (map budget (categorySummary (analyzedData sample_host initial_data))) =
     Fin 144000 \<and>
   totalBudget (analyzedData sample_host initial_data) = Fin 144000"
proof -
  have es: "exact_amounts (map spend initial_data)"
    by (simp add: exact_amounts_def initial_data_def whole_def)
  have eb: "exact_amounts (map budget initial_data)"
    by (simp add: exact_amounts_def initial_data_def whole_def)
  have ts: "totalSpend (analyzedData sample_host initial_data) = Fin 135800"
    using sum_from_left_exact(1)[OF es] by (simp add: total_sums initial_data_def)
  have tb: "totalBudget (analyzedData sample_host initial_data) = Fin 144000"
    using sum_from_left_exact(1)[OF eb] by (simp add: total_sums initial_data_def)
  from conservation_of_exact_amounts[of initial_data sample_host] es eb ts tb
  show ?thesis by simp
qed

section \<open>Two decimals: printing and reading back\<close>

lemma decimal_digits: "0 \<le> n \<Longrightarrow> list_all isDigit (decimal n)"
proof (induction n rule: decimal.induct)
  case (1 n)
  show ?case
  proof (cases "n < 10")
    case True
    with "1.prems" have "isDigit (nat (48 + n))"
      unfolding isDigit_def by linarith
    with True show ?thesis
      by (subst decimal.simps) simp
  next
    case False
    with "1.prems" "1.IH" have "list_all isDigit (decimal (n div 10))" by simp
    moreover have "0 \<le> n mod 10" "n mod 10 < 10" by simp_all
    then have "isDigit (nat (48 + n mod 10))"
      unfolding isDigit_def by linarith
    ultimately show ?thesis using False
      by (subst decimal.simps) simp
  qed
qed

lemma decimal_nonempty: "decimal n \<noteq> []"
  by (subst decimal.simps) simp

lemma digitsValue_snoc: "digitsValue (ds @ [d]) = digitsValue ds * 10 + (int d - 48)"
  by (simp add: digitsValue_def)

lemma digitsValue_decimal: "0 \<le> n \<Longrightarrow> digitsValue (decimal n) = n"
proof (induction n rule: decimal.induct)
  case (1 n)
  show ?case
  proof (cases "n < 10")
    case True
    with "1.prems" show ?thesis
      by (subst decimal.simps) (simp add: digitsValue_def)
  next
    case False
    with "1.prems" "1.IH" have "digitsValue (decimal (n div 10)) = n div 10" by simp
    with False "1.prems" show ?thesis
      by (subst decimal.simps) (simp add: digitsValue_snoc)
  qed
qed

lemma digitsValue_zeros: "digitsValue (replicate k 48 @ ds) = digitsValue ds"
proof -
  have "foldl (\<lambda>acc d. acc * 10 + (int d - 48)) 0 (replicate k 48) = 0"
    by (induction k) simp_all
  then show ?thesis by (simp add: digitsValue_def)
qed

lemma takeWhile_digits:
  assumes "list_all isDigit a"
  shows "takeWhile isDigit (a @ 46 # b) = a" and "dropWhile isDigit (a @ 46 # b) = 46 # b"
  using assms by (induction a) (simp_all add: isDigit_def)

lemma takeWhile_all:
  assumes "list_all isDigit b"
  shows "takeWhile isDigit b = b" and "dropWhile isDigit b = []"
  using assms by (induction b) simp_all

lemma parseFloat_fixed:
  assumes a: "list_all isDigit a" "a \<noteq> []" and b: "list_all isDigit b"
  shows "parseFloat ((if neg then [45] else []) @ a @ 46 # b) =
         round64 ((if neg then - 1 else 1) * of_int (digitsValue (a @ b)) / 10 ^ length b)"
proof -
  from a obtain d a' where a': "a = d # a'" and d: "isDigit d"
    by (cases a) auto
  let ?s = "(if neg then [45] else []) @ a @ 46 # b"
  from d have nows: "\<not> isWhiteSpace d" "d \<noteq> 45" "d \<noteq> 43" "d \<noteq> 73"
    by (auto simp: isDigit_def isWhiteSpace_def)
  have minus: "\<not> isWhiteSpace 45"
    by (simp add: isWhiteSpace_def)
  have ws: "dropWhile isWhiteSpace ?s = ?s"
    by (simp add: a' nows(1) minus)
  have sign: "splitSign ?s = (neg, a @ 46 # b)"
    by (simp add: a' nows splitSign_def)
  have inf: "\<not> prefix (ascii ''Infinity'') (a @ 46 # b)"
    by (simp add: a' nows ascii_def)
  show ?thesis
    unfolding parseFloat_def ws sign
    using inf a(2)
    by (simp add: Let_def takeWhile_digits[OF a(1)] takeWhile_all[OF b] exponentPart_def
        pow10_def)
qed

lemma toFixed_two:
  assumes "\<bar>q\<bar> < 10 ^ 21"
  shows "\<exists>a b. toFixed h (Fin q) 2 = (if q < 0 then [45] else []) @ a @ 46 # b \<and>
           list_all isDigit a \<and> a \<noteq> [] \<and> list_all isDigit b \<and> length b = 2 \<and>
           digitsValue (a @ b) = \<lfloor>\<bar>q\<bar> * 100 + 1 / 2\<rfloor>"
proof -
  let ?n = "\<lfloor>\<bar>q\<bar> * 100 + 1 / 2\<rfloor>"
  let ?ds = "decimal ?n"
  let ?m = "if length ?ds \<le> 2 then replicate (2 + 1 - length ?ds) 48 @ ?ds else ?ds"
  let ?k = "length ?m"
  have n0: "0 \<le> ?n" by simp
  have len: "3 \<le> ?k" using decimal_nonempty[of ?n] by (auto simp: Suc_le_eq)
  have dig0: "list_all isDigit ?ds" using n0 by (rule decimal_digits)
  then have dig: "list_all isDigit ?m" by (auto simp: list_all_iff isDigit_def)
  have val: "digitsValue ?m = ?n"
    using digitsValue_decimal[OF n0] by (simp add: digitsValue_zeros)
  let ?a = "take (?k - 2) ?m" and ?b = "drop (?k - 2) ?m"
  have "toFixed h (Fin q) 2 = (if q < 0 then [45] else []) @ ?a @ 46 # ?b"
    using assms by (simp add: toFixed_def Let_def ascii_def)
  moreover have "list_all isDigit ?a" "list_all isDigit ?b"
    using dig by (auto simp: list_all_iff dest: in_set_takeD in_set_dropD)
  moreover have "?a \<noteq> []" using len by auto
  moreover have "length ?b = 2" using len by auto
  moreover have "digitsValue (?a @ ?b) = ?n" using val by simp
  ultimately show ?thesis by blast
qed

lemma round_trip_fixed:
  assumes "fixed_notation x"
  shows "parseFloat (toFixed h x 2) = round_to_hundredths x"
proof (cases x)
  case (Fin q)
  with assms have small: "\<bar>q\<bar> < 10 ^ 21" by (simp add: fixed_notation_def)
  from toFixed_two[OF small, of h] obtain a b where
    s: "toFixed h (Fin q) 2 = (if q < 0 then [45] else []) @ a @ 46 # b"
    and ab: "list_all isDigit a" "a \<noteq> []" "list_all isDigit b" "length b = 2"
    and v: "digitsValue (a @ b) = \<lfloor>\<bar>q\<bar> * 100 + 1 / 2\<rfloor>"
    by blast
  show ?thesis
    unfolding Fin s parseFloat_fixed[OF ab(1,2,3)] v ab(4)
    by (simp add: round_to_hundredths_def)
next
  case PInf
  have "parseFloat (ascii ''Infinity'') = PInf" by code_simp
  with PInf show ?thesis
    by (simp add: toFixed_def numberToString_def round_to_hundredths_def)
next
  case NInf
  have "parseFloat (ascii ''-Infinity'') = NInf" by code_simp
  with NInf show ?thesis
    by (simp add: toFixed_def numberToString_def round_to_hundredths_def)
next
  case NaN
  have "parseFloat (ascii ''NaN'') = NaN" by code_simp
  with NaN show ?thesis
    by (simp add: toFixed_def numberToString_def round_to_hundredths_def)
qed

lemma round_to_hundredths_zero: "round_to_hundredths (Fin 0) = Fin 0"
  by code_simp


section \<open>The analysis\<close>

lemma js_le_not_gt: "js_le x (Fin 0) \<Longrightarrow> \<not> js_gt x (Fin 0)"
  by (cases x) auto

lemma percentage_analyzeItem:
  "percentage (analyzeItem h it) =
     parseFloat (toFixed h (if js_gt (budget it) (Fin 0)
                            then js_mul (js_div (spend it) (budget it)) (Fin 100)
                            else Fin 0) 2)"
  by (simp add: analyzeItem_def Let_def)

lemma toFixed_large:
  "\<not> fixed_notation x \<Longrightarrow> toFixed h x f = numberToString h x"
  by (cases x) (simp_all add: fixed_notation_def toFixed_def)

text \<open>
  Claim C2. The analysis keeps the order of the items: there are as many analyzed items as
  items, and the \<open>i\<close>-th carries the fields of the \<open>i\<close>-th item and the category of
  its name. With a budget above zero its percentage is spend divided by budget times a
  hundred, printed with two decimals and read back: the nearest hundredth, as a number
  (from \<open>10^21\<close> on, where a number has no decimals, \<open>toFixed\<close> prints the number as
  \<open>Number::toString\<close> does). With a budget of zero or below the percentage is zero.
\<close>

theorem analyzedData_percentage:
  "length (analyzedData h items) = length items \<and>
   (\<forall>i < length items.
      name (analyzedData h items ! i) = name (items ! i) \<and>
      spend (analyzedData h items ! i) = spend (items ! i) \<and>
      budget (analyzedData h items ! i) = budget (items ! i) \<and>
      id_item (analyzedData h items ! i) = id_item (items ! i) \<and>
      category (analyzedData h items ! i) = classifyItem h (name (items ! i)) \<and>
      (js_gt (budget (items ! i)) (Fin 0) \<longrightarrow>
         percentage (analyzedData h items ! i) =
           parseFloat (toFixed h
             (js_mul (js_div (spend (items ! i)) (budget (items ! i))) (Fin 100)) 2) \<and>
         (fixed_notation (js_mul (js_div (spend (items ! i)) (budget (items ! i))) (Fin 100)) \<longrightarrow>
            percentage (analyzedData h items ! i) =
              round_to_hundredths
                (js_mul (js_div (spend (items ! i)) (budget (items ! i))) (Fin 100))) \<and>
         (\<not> fixed_notation (js_mul (js_div (spend (items ! i)) (budget (items ! i))) (Fin 100)) \<longrightarrow>
            percentage (analyzedData h items ! i) =
              parseFloat (numberToString h
                (js_mul (js_div (spend (items ! i)) (budget (items ! i))) (Fin 100))))) \<and>
      (js_le (budget (items ! i)) (Fin 0) \<longrightarrow>
         percentage (analyzedData h items ! i) = Fin 0))"
proof (intro conjI allI impI)
  show "length (analyzedData h items) = length items"
    by (simp add: analyzedData_def)
next
  fix i
  assume i: "i < length items"
  then have nth: "analyzedData h items ! i = analyzeItem h (items ! i)"
    by (simp add: analyzedData_def)
  let ?p = "js_mul (js_div (spend (items ! i)) (budget (items ! i))) (Fin 100)"
  show "name (analyzedData h items ! i) = name (items ! i)"
    and "spend (analyzedData h items ! i) = spend (items ! i)"
    and "budget (analyzedData h items ! i) = budget (items ! i)"
    and "id_item (analyzedData h items ! i) = id_item (items ! i)"
    and "category (analyzedData h items ! i) = classifyItem h (name (items ! i))"
    by (simp_all add: nth)
  {
    assume gt: "js_gt (budget (items ! i)) (Fin 0)"
    then show code: "percentage (analyzedData h items ! i) = parseFloat (toFixed h ?p 2)"
      by (simp add: nth percentage_analyzeItem)
    {
      assume "fixed_notation ?p"
      then show "percentage (analyzedData h items ! i) = round_to_hundredths ?p"
        by (simp add: code round_trip_fixed)
    }
    {
      assume "\<not> fixed_notation ?p"
      then show "percentage (analyzedData h items ! i) = parseFloat (numberToString h ?p)"
        by (simp add: code toFixed_large)
    }
  }
  {
    assume "js_le (budget (items ! i)) (Fin 0)"
    then have "\<not> js_gt (budget (items ! i)) (Fin 0)" by (rule js_le_not_gt)
    moreover have "fixed_notation (Fin 0)" by (simp add: fixed_notation_def)
    ultimately show "percentage (analyzedData h items ! i) = Fin 0"
      by (simp add: nth percentage_analyzeItem round_trip_fixed round_to_hundredths_zero)
  }
qed

theorem analyzedData_percentage_witness:
  "js_gt (Fin 30000) (Fin 0) \<and>
   js_mul (js_div (Fin 32000) (Fin 30000)) (Fin 100) =
     Fin (7505999378950827 / 70368744177664) \<and>
   percentage (analyzedData sample_host
     [\<lparr>name = ascii ''Facebook '' @ [0x5EE3, 0x544A, 0x6295, 0x653E],
       spend = Fin 32000, budget = Fin 30000, id_item = 3\<rparr>,
      \<lparr>name = ascii ''x'', spend = Fin 5, budget = Fin 0, id_item = 8\<rparr>] ! 0) =
     Fin (7506233941431419 / 70368744177664) \<and>
   js_le (Fin 0) (Fin 0) \<and>
   percentage (analyzedData sample_host
     [\<lparr>name = ascii ''Facebook '' @ [0x5EE3, 0x544A, 0x6295, 0x653E],
       spend = Fin 32000, budget = Fin 30000, id_item = 3\<rparr>,
      \<lparr>name = ascii ''x'', spend = Fin 5, budget = Fin 0, id_item = 8\<rparr>] ! 1) = Fin 0"
proof -
  let ?items = "[\<lparr>name = ascii ''Facebook '' @ [0x5EE3, 0x544A, 0x6295, 0x653E],
       spend = Fin 32000, budget = Fin 30000, id_item = 3\<rparr>,
      \<lparr>name = ascii ''x'', spend = Fin 5, budget = Fin 0, id_item = 8\<rparr>]"
  have p: "js_mul (js_div (Fin 32000) (Fin 30000)) (Fin 100) =
           Fin (7505999378950827 / 70368744177664)"
    by code_simp
  have r: "round_to_hundredths (Fin (7505999378950827 / 70368744177664)) =
           Fin (7506233941431419 / 70368744177664)"
    by code_simp
  have f: "fixed_notation (Fin (7505999378950827 / 70368744177664))"
    by (simp add: fixed_notation_def)
  note inst = analyzedData_percentage[of sample_host ?items]
  let ?p0 = "js_mul (js_div (spend (?items ! 0)) (budget (?items ! 0))) (Fin 100)"
  from inst have "0 < length ?items \<longrightarrow> js_gt (budget (?items ! 0)) (Fin 0) \<longrightarrow>
      fixed_notation ?p0 \<longrightarrow>
      percentage (analyzedData sample_host ?items ! 0) = round_to_hundredths ?p0"
    by blast
  with p r f
  have a: "percentage (analyzedData sample_host ?items ! 0) =
           Fin (7506233941431419 / 70368744177664)"
    by simp
  from inst have "1 < length ?items \<longrightarrow> js_le (budget (?items ! 1)) (Fin 0) \<longrightarrow>
      percentage (analyzedData sample_host ?items ! 1) = Fin 0"
    by blast
  then have b: "percentage (analyzedData sample_host ?items ! 1) = Fin 0"
    by simp
  from p a b show ?thesis by simp
qed


section \<open>The exported text\<close>

lemma join_Cons: "join sep (x # xs) = x @ concat (map (\<lambda>y. sep @ y) xs)"
  by (induction xs arbitrary: x) simp_all

text \<open>
  Claim C8. For every list with at least one item the exported text is the byte-order
  mark U+FEFF, the header row (the five titles, joined by commas), and then for each
  analyzed item, in order, a line feed and its row: name, category, spend, budget and the
  percentage followed by \<open>%\<close>, joined by commas. The name goes into the row as it is,
  commas included.
\<close>

theorem handleDownloadCSV_content:
  "items \<noteq> [] \<longrightarrow>
   handleDownloadCSV h today items =
     Some \<lparr>content =
             [0xFEFF] @
             [0x9805, 0x76EE, 0x540D, 0x7A31, 44, 0x985E, 0x5225, 44,
              0x652F, 0x51FA, 0x91D1, 0x984D, 44, 0x9810, 0x7B97, 0x984D, 0x5EA6, 44,
              0x4F7F, 0x7528, 0x767E, 0x5206, 0x6BD4, 40, 37, 41] @
             concat (map (\<lambda>a. [10] @ name a @ [44] @ category a @ [44] @
                                numberToString h (spend a) @ [44] @
                                numberToString h (budget a) @ [44] @
                                numberToString h (percentage a) @ [37])
                         (analyzedData h items)),
           filename = [0x8CA1, 0x52D9, 0x5206, 0x6790, 0x5831, 0x544A, 0x5F] @ today @
                      ascii ''.csv''\<rparr>"
proof
  assume "items \<noteq> []"
  then have ne: "length (analyzedData h items) \<noteq> 0"
    by (simp add: analyzedData_def)
  have row: "csvRow h a = name a @ [44] @ category a @ [44] @
                                numberToString h (spend a) @ [44] @
                                numberToString h (budget a) @ [44] @
                                numberToString h (percentage a) @ [37]" for a
    by (simp add: csvRow_def ascii_def)
  have head: "join (ascii '','') headers =
     [0x9805, 0x76EE, 0x540D, 0x7A31, 44, 0x985E, 0x5225, 44,
      0x652F, 0x51FA, 0x91D1, 0x984D, 44, 0x9810, 0x7B97, 0x984D, 0x5EA6, 44,
      0x4F7F, 0x7528, 0x767E, 0x5206, 0x6BD4, 40, 37, 41]"
    by (simp add: headers_def ascii_def)
  show "handleDownloadCSV h today items =
     Some \<lparr>content =
             [0xFEFF] @
             [0x9805, 0x76EE, 0x540D, 0x7A31, 44, 0x985E, 0x5225, 44,
              0x652F, 0x51FA, 0x91D1, 0x984D, 44, 0x9810, 0x7B97, 0x984D, 0x5EA6, 44,
              0x4F7F, 0x7528, 0x767E, 0x5206, 0x6BD4, 40, 37, 41] @
             concat (map (\<lambda>a. [10] @ name a @ [44] @ category a @ [44] @
                                numberToString h (spend a) @ [44] @
                                numberToString h (budget a) @ [44] @
                                numberToString h (percentage a) @ [37])
                         (analyzedData h items)),
           filename = [0x8CA1, 0x52D9, 0x5206, 0x6790, 0x5831, 0x544A, 0x5F] @ today @
                      ascii ''.csv''\<rparr>"
    using ne
    by (simp add: handleDownloadCSV_def Let_def csvContent_def join_Cons head comp_def row
        del: join.simps)
qed

theorem handleDownloadCSV_content_witness:
  "handleDownloadCSV sample_host (ascii ''2026/11/2'')
     [\<lparr>name = [0x8FA6, 0x516C, 0x5BA4, 0x79DF, 0x91D1],
       spend = Fin 50000, budget = Fin 50000, id_item = 1\<rparr>,
      \<lparr>name = ascii ''a,b'', spend = Fin 1, budget = Fin 2, id_item = 8\<rparr>] =
   Some \<lparr>content = [
          0xFEFF, 0x9805, 0x76EE, 0x540D, 0x7A31, 44, 0x985E, 0x5225, 44, 0x652F, 0x51FA,
          0x91D1, 0x984D, 44, 0x9810, 0x7B97, 0x984D, 0x5EA6, 44, 0x4F7F, 0x7528, 0x767E,
          0x5206, 0x6BD4, 40, 37, 41, 10, 0x8FA6, 0x516C, 0x5BA4, 0x79DF, 0x91D1, 44, 0x71DF,
          0x904B, 0x6210, 0x672C, 44, 53, 48, 48, 48, 48, 44, 53, 48, 48, 48, 48, 44, 49, 48,
          48, 37, 10, 97, 44, 98, 44, 0x5176, 0x4ED6, 44, 49, 44, 50, 44, 53, 48, 37],
         filename = [
          0x8CA1, 0x52D9, 0x5206, 0x6790, 0x5831, 0x544A, 95, 50, 48, 50, 54, 47, 49, 49, 47,
          50, 46, 99, 115, 118]\<rparr>"
proof -
  let ?items = "[\<lparr>name = [0x8FA6, 0x516C, 0x5BA4, 0x79DF, 0x91D1],
       spend = Fin 50000, budget = Fin 50000, id_item = 1\<rparr>,
      \<lparr>name = ascii ''a,b'', spend = Fin 1, budget = Fin 2, id_item = 8\<rparr>]"
  have rows: "map (\<lambda>a. (name a, category a, numberToString sample_host (spend a),
                        numberToString sample_host (budget a),
                        numberToString sample_host (percentage a)))
                (analyzedData sample_host ?items) =
     [([0x8FA6, 0x516C, 0x5BA4, 0x79DF, 0x91D1], CAT_OPERATIONS, ascii ''50000'', ascii ''50000'',
       ascii ''100''),
      (ascii ''a,b'', CAT_OTHER, ascii ''1'', ascii ''2'', ascii ''50'')]"
    by code_simp
  have ne: "?items \<noteq> []" by simp
  from handleDownloadCSV_content[of ?items sample_host "ascii ''2026/11/2''"] ne
  have "handleDownloadCSV sample_host (ascii ''2026/11/2'') ?items =
     Some \<lparr>content =
             [0xFEFF] @
             [0x9805, 0x76EE, 0x540D, 0x7A31, 44, 0x985E, 0x5225, 44,
              0x652F, 0x51FA, 0x91D1, 0x984D, 44, 0x9810, 0x7B97, 0x984D, 0x5EA6, 44,
              0x4F7F, 0x7528, 0x767E, 0x5206, 0x6BD4, 40, 37, 41] @
             concat (map (\<lambda>(n, c, s, b, p). [10] @ n @ [44] @ c @ [44] @ s @ [44] @ b @ [44] @
                                            p @ [37])
                  (map (\<lambda>a. (name a, category a, numberToString sample_host (spend a),
                        numberToString sample_host (budget a),
                        numberToString sample_host (percentage a)))
                   (analyzedData sample_host ?items))),
           filename = [0x8CA1, 0x52D9, 0x5206, 0x6790, 0x5831, 0x544A, 0x5F] @
                      ascii ''2026/11/2'' @ ascii ''.csv''\<rparr>"
    by (simp add: comp_def)
  then show ?thesis
    unfolding rows by (simp add: ascii_def categories_def)
qed

end
